theory Spec2Isabelle
  imports Main
begin

section \<open>Data model (types.ts)\<close>

text \<open>
  The task planner stores every instant as an ISO date string and computes with the
  millisecond time value of the \<open>Date\<close> built from it. Instants are modelled as
  \<open>int\<close> (milliseconds since the epoch); the strings of a task are the ISO date strings
  the interface \<open>Task\<close> documents, so the invalid \<open>Date\<close> (time value NaN) and the
  clipping of time values to the range of \<open>Date\<close> are outside the model.
  The fields \<open>id\<close> and \<open>end\<close> of the source are \<open>idT\<close> and \<open>endT\<close> here.
\<close>

datatype Priority = HIGH | MEDIUM | LOW

datatype RecurrenceFrequency = NONE | DAILY | WEEKLY | MONTHLY | YEARLY

record RecurrenceConfig =
  frequency :: RecurrenceFrequency
  interval :: "int option"
  until :: "string option"

record Task =
  idT :: string
  title :: string
  description :: string
  start :: string
  endT :: string
  priority :: Priority
  reminderMinutes :: int
  completed :: bool
  recurrence :: "RecurrenceConfig option"
  completedInstances :: "string list option"

section \<open>The host's Date\<close>

text \<open>
  The built-in \<open>Date\<close> belongs to the host, not to the repository: its local time zone
  decides what \<open>setDate\<close>, \<open>setMonth\<close>, \<open>setFullYear\<close> and \<open>setHours\<close> do. The engine is
  modelled over an arbitrary host. A setter takes the time value of the date it is called on
  and returns the time value the date holds afterwards.
\<close>

record host =
  parseDate :: "string \<Rightarrow> int"
  toISOString :: "int \<Rightarrow> string"
  getDate :: "int \<Rightarrow> int"
  setDate :: "int \<Rightarrow> int \<Rightarrow> int"
  getMonth :: "int \<Rightarrow> int"
  setMonth :: "int \<Rightarrow> int \<Rightarrow> int"
  getFullYear :: "int \<Rightarrow> int"
  setFullYear :: "int \<Rightarrow> int \<Rightarrow> int"
  setHours :: "int \<Rightarrow> int \<Rightarrow> int \<Rightarrow> int \<Rightarrow> int \<Rightarrow> int"

section \<open>Virtual identities (recurrenceService.ts)\<close>

text \<open>
  \<open>split_sep s\<close> is \<open>s.split('::')\<close>: the pieces between the successive matches of the
  separator, found from left to right without overlap.
\<close>

fun split_sep :: "string \<Rightarrow> string list" where
  "split_sep (c # d # cs) =
     (if c = CHR '':'' \<and> d = CHR '':'' then [] # split_sep cs
      else (case split_sep (d # cs) of p # ps \<Rightarrow> (c # p) # ps | [] \<Rightarrow> [[c]]))"
| "split_sep cs = [cs]"

definition parseVirtualId :: "string \<Rightarrow> string \<times> string option" where
  "parseVirtualId virtualId =
     (let parts = split_sep virtualId in
      if length parts = 2 then (parts ! 0, Some (parts ! 1))
      else (virtualId, None))"

text \<open>The template literal \<open>`${task.id}::${startIso}`\<close>.\<close>

definition virtualId :: "string \<Rightarrow> string \<Rightarrow> string" where
  "virtualId seriesId startIso = seriesId @ ''::'' @ startIso"

section \<open>Expansion (generateRecurringTasks)\<close>

definition MAX_ITERATIONS :: nat where
  "MAX_ITERATIONS = 1000"

text \<open>The \<open>switch\<close> that advances \<open>currentStart\<close>; no case matches \<open>NONE\<close>.\<close>

definition advance :: "host \<Rightarrow> RecurrenceFrequency \<Rightarrow> int \<Rightarrow> int \<Rightarrow> int" where
  "advance H f iv currentStart =
     (case f of
        DAILY \<Rightarrow> setDate H currentStart (getDate H currentStart + iv)
      | WEEKLY \<Rightarrow> setDate H currentStart (getDate H currentStart + 7 * iv)
      | MONTHLY \<Rightarrow> setMonth H currentStart (getMonth H currentStart + iv)
      | YEARLY \<Rightarrow> setFullYear H currentStart (getFullYear H currentStart + iv)
      | NONE \<Rightarrow> currentStart)"

text \<open>\<open>task.completedInstances?.includes(startIso) || false\<close>.\<close>

definition isInstanceCompleted :: "Task \<Rightarrow> string \<Rightarrow> bool" where
  "isInstanceCompleted task startIso =
     (case completedInstances task of None \<Rightarrow> False | Some ci \<Rightarrow> startIso \<in> set ci)"

text \<open>The object pushed for one occurrence.\<close>

definition instanceOf :: "host \<Rightarrow> Task \<Rightarrow> int \<Rightarrow> int \<Rightarrow> Task" where
  "instanceOf H task currentStart currentEnd =
     (let startIso = toISOString H currentStart in
      task\<lparr>idT := virtualId (idT task) startIso,
           start := startIso,
           endT := toISOString H currentEnd,
           completed := isInstanceCompleted task startIso\<rparr>)"

text \<open>
  The \<open>while\<close> loop of one recurring task, from the state \<open>(currentStart, iterations)\<close>;
  the value is the sequence of pushes. \<open>untilDate\<close> is \<open>None\<close> for \<open>null\<close>.
\<close>

function whileLoop ::
  "host \<Rightarrow> Task \<Rightarrow> RecurrenceFrequency \<Rightarrow> int \<Rightarrow> int option \<Rightarrow> int \<Rightarrow> int \<Rightarrow> int
     \<Rightarrow> int \<Rightarrow> nat \<Rightarrow> Task list" where
  "whileLoop H task f iv untilDate taskDuration rangeStart rangeEnd currentStart iterations =
     (if currentStart < rangeEnd
         \<and> (case untilDate of None \<Rightarrow> True | Some u \<Rightarrow> currentStart \<le> u)
         \<and> iterations < MAX_ITERATIONS
      then
        (let currentEnd = currentStart + taskDuration in
         (if currentStart < rangeEnd \<and> currentEnd > rangeStart
          then [instanceOf H task currentStart currentEnd] else [])
         @ whileLoop H task f iv untilDate taskDuration rangeStart rangeEnd
             (advance H f iv currentStart) (iterations + 1))
      else [])"
  by pat_completeness auto
termination
  by (relation "measure (\<lambda>(H, task, f, iv, u, d, rs, re, cs, it). MAX_ITERATIONS - it)") auto

declare whileLoop.simps [simp del]

text \<open>
  The body of \<open>tasks.forEach\<close> for one task. \<open>interval = 1\<close> is the default of the
  destructuring, taken when the field is absent; \<open>until ? new Date(until) : null\<close> is
  \<open>null\<close> for an absent and for an empty string.
\<close>

definition intervalOf :: "RecurrenceConfig \<Rightarrow> int" where
  "intervalOf r = (case interval r of None \<Rightarrow> 1 | Some iv \<Rightarrow> iv)"

definition untilDateOf :: "host \<Rightarrow> RecurrenceConfig \<Rightarrow> int option" where
  "untilDateOf H r =
     (case until r of
        None \<Rightarrow> None
      | Some u \<Rightarrow> if u = [] then None else Some (parseDate H u))"

definition taskDurationOf :: "host \<Rightarrow> Task \<Rightarrow> int" where
  "taskDurationOf H task = parseDate H (endT task) - parseDate H (start task)"

definition expandTask :: "host \<Rightarrow> int \<Rightarrow> int \<Rightarrow> Task \<Rightarrow> Task list" where
  "expandTask H rangeStart rangeEnd task =
     (case recurrence task of
        None \<Rightarrow>
          (if parseDate H (start task) < rangeEnd \<and> parseDate H (endT task) > rangeStart
           then [task] else [])
      | Some r \<Rightarrow>
          (if frequency r = NONE
           then (if parseDate H (start task) < rangeEnd \<and> parseDate H (endT task) > rangeStart
                 then [task] else [])
           else whileLoop H task (frequency r) (intervalOf r) (untilDateOf H r)
                  (taskDurationOf H task) rangeStart rangeEnd (parseDate H (start task)) 0))"

primrec generateRecurringTasks :: "host \<Rightarrow> Task list \<Rightarrow> int \<Rightarrow> int \<Rightarrow> Task list" where
  "generateRecurringTasks H [] rangeStart rangeEnd = []"
| "generateRecurringTasks H (task # tasks) rangeStart rangeEnd =
     expandTask H rangeStart rangeEnd task @ generateRecurringTasks H tasks rangeStart rangeEnd"

section \<open>The application (App.tsx)\<close>

subsection \<open>Conflict detection (checkConflict)\<close>

text \<open>\<open>visibleTasks\<close> is the pool the callback closes over.\<close>

definition checkConflict :: "host \<Rightarrow> Task list \<Rightarrow> Task \<Rightarrow> bool" where
  "checkConflict H visibleTasks task =
     (let currentOriginalId = fst (parseVirtualId (idT task)) in
      list_ex (\<lambda>t.
        let otherOriginalId = fst (parseVirtualId (idT t)) in
        if currentOriginalId = otherOriginalId then False
        else if completed t \<or> completed task then False
        else
          (let t1Start = parseDate H (start task);
               t1End = parseDate H (endT task);
               t2Start = parseDate H (start t);
               t2End = parseDate H (endT t)
           in t1Start < t2End \<and> t1End > t2Start))
        visibleTasks)"

subsection \<open>Batch import (handleBatchImport)\<close>

text \<open>
  An element of the \<open>any[]\<close> the planner modal hands over: the fields the callback reads,
  optional where the callback provides for their absence, and \<open>completed\<close>, which a record
  may carry and the callback never reads.
\<close>

record PartialTask =
  titleP :: string
  descriptionP :: "string option"
  startP :: string
  endP :: string
  priorityP :: Priority
  reminderMinutesP :: "int option"
  recurrenceP :: "RecurrenceConfig option"
  completedP :: "bool option"

text \<open>
  The object built for one record. \<open>a || b\<close> is \<open>b\<close> when \<open>a\<close> is absent and also when it
  is falsy: the empty string, the number 0.
\<close>

definition formatTask :: "string \<Rightarrow> PartialTask \<Rightarrow> Task" where
  "formatTask uuid t =
     \<lparr>idT = uuid,
      title = titleP t,
      description = (case descriptionP t of None \<Rightarrow> [] | Some d \<Rightarrow> if d = [] then [] else d),
      start = startP t,
      endT = endP t,
      priority = priorityP t,
      reminderMinutes =
        (case reminderMinutesP t of None \<Rightarrow> 15 | Some m \<Rightarrow> if m = 0 then 15 else m),
      completed = False,
      recurrence = recurrenceP t,
      completedInstances = None\<rparr>"

text \<open>
  \<open>crypto.randomUUID()\<close> is the host's: \<open>randomUUID k\<close> is what its \<open>k\<close>-th call returns,
  and the number of calls made so far is part of the state.
\<close>

primrec formatTasks :: "(nat \<Rightarrow> string) \<Rightarrow> nat \<Rightarrow> PartialTask list \<Rightarrow> Task list" where
  "formatTasks randomUUID k [] = []"
| "formatTasks randomUUID k (t # ts) =
     formatTask (randomUUID k) t # formatTasks randomUUID (Suc k) ts"

definition handleBatchImport ::
  "(nat \<Rightarrow> string) \<Rightarrow> nat \<Rightarrow> PartialTask list \<Rightarrow> Task list \<Rightarrow> Task list \<times> nat" where
  "handleBatchImport randomUUID k newTasks prev =
     (prev @ formatTasks randomUUID k newTasks, k + length newTasks)"

subsection \<open>Completion (handleToggleComplete)\<close>

text \<open>The callback of \<open>prev.map\<close>; \<open>if (instanceDate)\<close> fails for \<open>null\<close> and for the empty string.\<close>

definition toggleOne :: "string \<Rightarrow> string option \<Rightarrow> Task \<Rightarrow> Task" where
  "toggleOne originalId instanceDate t =
     (if idT t \<noteq> originalId then t
      else
        (case (case instanceDate of None \<Rightarrow> None | Some d \<Rightarrow> if d = [] then None else Some d) of
           Some d \<Rightarrow>
             (let ci = (case completedInstances t of None \<Rightarrow> [] | Some c \<Rightarrow> c);
                  isCompleted = (d \<in> set ci)
              in t\<lparr>completedInstances :=
                     Some (if isCompleted then filter (\<lambda>x. x \<noteq> d) ci else ci @ [d])\<rparr>)
         | None \<Rightarrow> t\<lparr>completed := \<not> completed t\<rparr>))"

definition handleToggleComplete :: "Task \<Rightarrow> Task list \<Rightarrow> Task list" where
  "handleToggleComplete task prev =
     (let (originalId, instanceDate) = parseVirtualId (idT task) in
      map (toggleOne originalId instanceDate) prev)"

subsection \<open>Reminders (checkReminders)\<close>

text \<open>
  One tick. The callback reads the clock three times (\<open>now\<close>, and the two dates it turns
  into the bounds of today), and it reads the set \<open>notifiedTaskIds\<close> of the render that
  created it: the updates it queues reach the set after the tick. The value is the
  sequence of reminder events and the set after the queued updates.
\<close>

definition fires :: "host \<Rightarrow> string set \<Rightarrow> int \<Rightarrow> Task \<Rightarrow> bool" where
  "fires H notifiedTaskIds now task =
     (if completed task \<or> idT task \<in> notifiedTaskIds then False
      else
        (let startTime = parseDate H (start task);
             reminderTime = startTime - reminderMinutes task * 60 * 1000
         in now \<ge> reminderTime \<and> now < startTime + 60000))"

definition tasksForReminders :: "host \<Rightarrow> Task list \<Rightarrow> int \<Rightarrow> int \<Rightarrow> Task list" where
  "tasksForReminders H tasks now2 now3 =
     (let todayStart = setHours H now2 0 0 0 0;
          todayEnd = setHours H now3 23 59 59 999
      in generateRecurringTasks H tasks todayStart todayEnd)"

definition checkReminders ::
  "host \<Rightarrow> Task list \<Rightarrow> string set \<Rightarrow> int \<Rightarrow> int \<Rightarrow> int \<Rightarrow> Task list \<times> string set" where
  "checkReminders H tasks notifiedTaskIds now now2 now3 =
     (let events = filter (fires H notifiedTaskIds now) (tasksForReminders H tasks now2 now3)
      in (events, notifiedTaskIds \<union> idT ` set events))"

text \<open>
  A run of the scanner: each tick finds the task list and the clock of its moment, and the
  set the ticks before it left.
\<close>

record tick =
  tasksAt :: "Task list"
  nowAt :: int
  now2At :: int
  now3At :: int

primrec runTicks :: "host \<Rightarrow> string set \<Rightarrow> tick list \<Rightarrow> Task list" where
  "runTicks H notifiedTaskIds [] = []"
| "runTicks H notifiedTaskIds (k # ks) =
     (let (events, notified') =
            checkReminders H (tasksAt k) notifiedTaskIds (nowAt k) (now2At k) (now3At k)
      in events @ runTicks H notified' ks)"

section \<open>A reference host: ECMAScript's Date in the time zone UTC\<close>

text \<open>
  The date arithmetic of ECMA-262 (Day, TimeWithinDay, MakeDay, MakeDate) with a local
  time zone offset of zero, the rendering \<open>YYYY-MM-DDTHH:mm:ss.sssZ\<close> of
  \<open>toISOString\<close> and the parser of that format. It gives the theorems below concrete
  instances; every theorem about the engine holds for all hosts.
\<close>

definition msPerDay :: int where
  "msPerDay = 86400000"

definition civilFromDays :: "int \<Rightarrow> int \<times> int \<times> int" where
  "civilFromDays z =
     (let z1 = z + 719468;
          era = z1 div 146097;
          doe = z1 mod 146097;
          yoe = (doe - doe div 1460 + doe div 36524 - doe div 146096) div 365;
          doy = doe - (365 * yoe + yoe div 4 - yoe div 100);
          mp = (5 * doy + 2) div 153;
          d = doy - (153 * mp + 2) div 5 + 1;
          m = (if mp < 10 then mp + 3 else mp - 9);
          y = yoe + era * 400
      in (if m \<le> 2 then y + 1 else y, m - 1, d))"

definition MakeDay :: "int \<Rightarrow> int \<Rightarrow> int \<Rightarrow> int" where
  "MakeDay year month date =
     (let ym = year + month div 12;
          mn = month mod 12 + 1;
          y = (if mn \<le> 2 then ym - 1 else ym);
          era = y div 400;
          yoe = y mod 400;
          doy = (153 * (if mn > 2 then mn - 3 else mn + 9) + 2) div 5;
          doe = yoe * 365 + yoe div 4 - yoe div 100 + doy
      in era * 146097 + doe - 719468 + date - 1)"

definition MakeTime :: "int \<Rightarrow> int \<Rightarrow> int \<Rightarrow> int \<Rightarrow> int" where
  "MakeTime h m s ms = h * 3600000 + m * 60000 + s * 1000 + ms"

definition MakeDate :: "int \<Rightarrow> int \<Rightarrow> int" where
  "MakeDate day time = day * msPerDay + time"

definition YearFromTime :: "int \<Rightarrow> int" where
  "YearFromTime t = fst (civilFromDays (t div msPerDay))"

definition MonthFromTime :: "int \<Rightarrow> int" where
  "MonthFromTime t = fst (snd (civilFromDays (t div msPerDay)))"

definition DateFromTime :: "int \<Rightarrow> int" where
  "DateFromTime t = snd (snd (civilFromDays (t div msPerDay)))"

fun pad :: "nat \<Rightarrow> int \<Rightarrow> string" where
  "pad 0 x = []"
| "pad (Suc n) x = pad n (x div 10) @ [char_of (48 + x mod 10)]"

definition isoString :: "int \<Rightarrow> string" where
  "isoString t =
     (case civilFromDays (t div msPerDay) of
        (y, m, d) \<Rightarrow>
          (let tw = t mod msPerDay in
           (if 0 \<le> y \<and> y \<le> 9999 then pad 4 y
            else (if y < 0 then ''-'' else ''+'') @ pad 6 (abs y))
           @ ''-'' @ pad 2 (m + 1) @ ''-'' @ pad 2 d
           @ ''T'' @ pad 2 (tw div 3600000) @ '':'' @ pad 2 (tw div 60000 mod 60)
           @ '':'' @ pad 2 (tw div 1000 mod 60) @ ''.'' @ pad 3 (tw mod 1000) @ ''Z''))"

fun digitsValue :: "int \<Rightarrow> string \<Rightarrow> int option" where
  "digitsValue acc [] = Some acc"
| "digitsValue acc (c # cs) =
     (if (48::nat) \<le> of_char c \<and> of_char c \<le> (57::nat)
      then digitsValue (10 * acc + (of_char c - 48)) cs else None)"

definition field :: "string \<Rightarrow> nat \<Rightarrow> nat \<Rightarrow> int option" where
  "field s i n = digitsValue 0 (take n (drop i s))"

text \<open>
  The parser of the 24-character format; a string of another shape has no time value and
  is mapped to 0 by \<open>utcParse\<close>, outside the domain of the model.
\<close>

definition isoParse :: "string \<Rightarrow> int option" where
  "isoParse s =
     (if length s = 24 \<and> s ! 4 = CHR ''-'' \<and> s ! 7 = CHR ''-'' \<and> s ! 10 = CHR ''T''
         \<and> s ! 13 = CHR '':'' \<and> s ! 16 = CHR '':'' \<and> s ! 19 = CHR ''.'' \<and> s ! 23 = CHR ''Z''
      then
        (case (field s 0 4, field s 5 2, field s 8 2, field s 11 2, field s 14 2) of
           (Some y, Some mo, Some d, Some h, Some mi) \<Rightarrow>
             (case (field s 17 2, field s 20 3) of
                (Some sec, Some ms) \<Rightarrow>
                  (if 1 \<le> mo \<and> mo \<le> 12 \<and> 1 \<le> d \<and> d \<le> 31 \<and> h < 24 \<and> mi < 60 \<and> sec < 60
                   then Some (MakeDate (MakeDay y (mo - 1) d) (MakeTime h mi sec ms))
                   else None)
              | _ \<Rightarrow> None)
         | _ \<Rightarrow> None)
      else None)"

definition utcParse :: "string \<Rightarrow> int" where
  "utcParse s = (case isoParse s of Some t \<Rightarrow> t | None \<Rightarrow> 0)"

definition utcSetDate :: "int \<Rightarrow> int \<Rightarrow> int" where
  "utcSetDate t dt =
     (case civilFromDays (t div msPerDay) of
        (y, m, d) \<Rightarrow> MakeDate (MakeDay y m dt) (t mod msPerDay))"

definition utcSetMonth :: "int \<Rightarrow> int \<Rightarrow> int" where
  "utcSetMonth t mo =
     (case civilFromDays (t div msPerDay) of
        (y, m, d) \<Rightarrow> MakeDate (MakeDay y mo d) (t mod msPerDay))"

definition utcSetFullYear :: "int \<Rightarrow> int \<Rightarrow> int" where
  "utcSetFullYear t yr =
     (case civilFromDays (t div msPerDay) of
        (y, m, d) \<Rightarrow> MakeDate (MakeDay yr m d) (t mod msPerDay))"

definition utcSetHours :: "int \<Rightarrow> int \<Rightarrow> int \<Rightarrow> int \<Rightarrow> int \<Rightarrow> int" where
  "utcSetHours t h m s ms = MakeDate (t div msPerDay) (MakeTime h m s ms)"

definition utcHost :: host where
  "utcHost =
     \<lparr>parseDate = utcParse,
      toISOString = isoString,
      getDate = DateFromTime,
      setDate = utcSetDate,
      getMonth = MonthFromTime,
      setMonth = utcSetMonth,
      getFullYear = YearFromTime,
      setFullYear = utcSetFullYear,
      setHours = utcSetHours\<rparr>"

section \<open>The specification's wording\<close>

subsection \<open>Expansion\<close>

text \<open>
  The starts a series visits: \<open>s0\<close> is the series' own start, each next one is one
  recurrence step after the one before, and the walk ends at the first start at which it
  has to stop, or when the given number of starts has been visited.
\<close>

primrec walkStarts :: "(int \<Rightarrow> int) \<Rightarrow> (int \<Rightarrow> bool) \<Rightarrow> nat \<Rightarrow> int \<Rightarrow> int list" where
  "walkStarts step stop 0 s = []"
| "walkStarts step stop (Suc n) s =
     (if stop s then [] else s # walkStarts step stop n (step s))"

text \<open>
  One recurrence step, by frequency and interval: Daily is the interval in days, Weekly
  seven times the interval in days, Monthly the interval in months and Yearly the interval
  in years. Days, months and years are added to the date's field of the host's local time,
  and the host carries an overflow of the field into the next ones.
\<close>

definition addDays :: "host \<Rightarrow> int \<Rightarrow> int \<Rightarrow> int" where
  "addDays H s n = setDate H s (getDate H s + n)"

definition addMonths :: "host \<Rightarrow> int \<Rightarrow> int \<Rightarrow> int" where
  "addMonths H s n = setMonth H s (getMonth H s + n)"

definition addYears :: "host \<Rightarrow> int \<Rightarrow> int \<Rightarrow> int" where
  "addYears H s n = setFullYear H s (getFullYear H s + n)"

fun nextOccurrenceStart :: "host \<Rightarrow> RecurrenceFrequency \<Rightarrow> int \<Rightarrow> int \<Rightarrow> int" where
  "nextOccurrenceStart H DAILY n current = addDays H current n"
| "nextOccurrenceStart H WEEKLY n current = addDays H current (n * 7)"
| "nextOccurrenceStart H MONTHLY n current = addMonths H current n"
| "nextOccurrenceStart H YEARLY n current = addYears H current n"
| "nextOccurrenceStart H NONE n current = current"

text \<open>The interval of a recurrence rule; a rule that carries none recurs every 1.\<close>

definition everyN :: "RecurrenceConfig \<Rightarrow> int" where
  "everyN r = (case interval r of Some n \<Rightarrow> n | None \<Rightarrow> 1)"

text \<open>The walk stops at a start that is not before the window's end, or after \<open>until\<close>.\<close>

definition stopsAt :: "host \<Rightarrow> RecurrenceConfig \<Rightarrow> int \<Rightarrow> int \<Rightarrow> bool" where
  "stopsAt H r windowEnd s =
     (s \<ge> windowEnd \<or> (case until r of None \<Rightarrow> False | Some u \<Rightarrow> s > parseDate H u))"

definition visitedStarts :: "host \<Rightarrow> int \<Rightarrow> Task \<Rightarrow> RecurrenceConfig \<Rightarrow> int list" where
  "visitedStarts H windowEnd task r =
     walkStarts (nextOccurrenceStart H (frequency r) (everyN r)) (stopsAt H r windowEnd) 1000
       (parseDate H (start task))"

definition overlapsWindow :: "int \<Rightarrow> int \<Rightarrow> int \<Rightarrow> int \<Rightarrow> bool" where
  "overlapsWindow s e windowStart windowEnd = (s < windowEnd \<and> e > windowStart)"

definition occurrenceSpec :: "host \<Rightarrow> Task \<Rightarrow> int \<Rightarrow> Task" where
  "occurrenceSpec H series s =
     series\<lparr>idT := idT series @ ''::'' @ toISOString H s,
            start := toISOString H s,
            endT := toISOString H (s + (parseDate H (endT series) - parseDate H (start series))),
            completed :=
              (case completedInstances series of
                 None \<Rightarrow> False
               | Some ci \<Rightarrow> toISOString H s \<in> set ci)\<rparr>"

definition expandSpec :: "host \<Rightarrow> int \<Rightarrow> int \<Rightarrow> Task \<Rightarrow> Task list" where
  "expandSpec H windowStart windowEnd series =
     (case (case recurrence series of
              None \<Rightarrow> None
            | Some r \<Rightarrow> if frequency r = NONE then None else Some r) of
        None \<Rightarrow>
          (if overlapsWindow (parseDate H (start series)) (parseDate H (endT series))
                windowStart windowEnd
           then [series] else [])
      | Some r \<Rightarrow>
          map (occurrenceSpec H series)
            (filter
              (\<lambda>s. overlapsWindow s
                     (s + (parseDate H (endT series) - parseDate H (start series)))
                     windowStart windowEnd)
              (visitedStarts H windowEnd series r)))"

text \<open>
  The data model's \<open>until\<close> is an optional instant: when the field is present it holds a
  date string, which is never empty.
\<close>

definition untilIsInstant :: "Task \<Rightarrow> bool" where
  "untilIsInstant task =
     (case recurrence task of None \<Rightarrow> True | Some r \<Rightarrow> until r \<noteq> Some [])"

subsection \<open>Virtual identities\<close>

text \<open>The split at the first occurrence of the separator, if there is one.\<close>

fun splitFirst :: "string \<Rightarrow> (string \<times> string) option" where
  "splitFirst (c # d # cs) =
     (if c = CHR '':'' \<and> d = CHR '':'' then Some ([], cs)
      else (case splitFirst (d # cs) of None \<Rightarrow> None | Some (a, b) \<Rightarrow> Some (c # a, b)))"
| "splitFirst cs = None"

definition containsSep :: "string \<Rightarrow> bool" where
  "containsSep s = (splitFirst s \<noteq> None)"

definition decodeSpec :: "string \<Rightarrow> string \<times> string option" where
  "decodeSpec v = (case splitFirst v of None \<Rightarrow> (v, None) | Some (a, b) \<Rightarrow> (a, Some b))"

text \<open>
  The series an id stands for: the part before the separator when the id holds it once,
  and the id itself when it holds none or several.
\<close>

definition severalSeps :: "string \<Rightarrow> bool" where
  "severalSeps v = (case splitFirst v of None \<Rightarrow> False | Some (a, b) \<Rightarrow> containsSep b)"

definition seriesIdOf :: "string \<Rightarrow> string" where
  "seriesIdOf v = (if severalSeps v then v else fst (decodeSpec v))"

definition endsWithColon :: "string \<Rightarrow> bool" where
  "endsWithColon s = (s \<noteq> [] \<and> last s = CHR '':'')"

subsection \<open>Completion\<close>

text \<open>\<open>completedInstances\<close> as the set of its instants; an absent array holds none.\<close>

definition instanceSet :: "Task \<Rightarrow> string set" where
  "instanceSet t = (case completedInstances t of None \<Rightarrow> {} | Some ci \<Rightarrow> set ci)"

text \<open>Two tasks that agree on every field, \<open>completedInstances\<close> compared as sets.\<close>

definition sameTask :: "Task \<Rightarrow> Task \<Rightarrow> bool" where
  "sameTask a b =
     (a\<lparr>completedInstances := None\<rparr> = b\<lparr>completedInstances := None\<rparr>
      \<and> instanceSet a = instanceSet b)"

definition sameTasks :: "Task list \<Rightarrow> Task list \<Rightarrow> bool" where
  "sameTasks xs ys = list_all2 sameTask xs ys"

section \<open>Example data\<close>

text \<open>
  A daily stand-up from 1 January 2024, 09:00 to 10:00 UTC, until 3 January, whose
  occurrence of 2 January is completed; a single meeting on 1 January from 09:30 to 10:30;
  and a single review from 10:00 to 11:00.
\<close>

definition standup :: Task where
  "standup =
     \<lparr>idT = ''abc'', title = ''Standup'', description = [],
      start = ''2024-01-01T09:00:00.000Z'', endT = ''2024-01-01T10:00:00.000Z'',
      priority = MEDIUM, reminderMinutes = 15, completed = False,
      recurrence =
        Some \<lparr>frequency = DAILY, interval = Some 1, until = Some ''2024-01-03T23:59:00.000Z''\<rparr>,
      completedInstances = Some [''2024-01-02T09:00:00.000Z'']\<rparr>"

definition meeting :: Task where
  "meeting =
     \<lparr>idT = ''m1'', title = ''Meeting'', description = [],
      start = ''2024-01-01T09:30:00.000Z'', endT = ''2024-01-01T10:30:00.000Z'',
      priority = HIGH, reminderMinutes = 0, completed = False,
      recurrence = None, completedInstances = None\<rparr>"

definition review :: Task where
  "review =
     \<lparr>idT = ''r1'', title = ''Review'', description = [],
      start = ''2024-01-01T10:00:00.000Z'', endT = ''2024-01-01T11:00:00.000Z'',
      priority = LOW, reminderMinutes = 5, completed = False,
      recurrence = None, completedInstances = None\<rparr>"

text \<open>
  An offsite from 31 December 2023 to 7 January 2024, and a daily series whose interval
  is 0.
\<close>

definition offsite :: Task where
  "offsite =
     \<lparr>idT = ''o1'', title = ''Offsite'', description = [],
      start = ''2023-12-31T00:00:00.000Z'', endT = ''2024-01-07T00:00:00.000Z'',
      priority = LOW, reminderMinutes = 60, completed = False,
      recurrence = None, completedInstances = None\<rparr>"

definition stuck :: Task where
  "stuck =
     \<lparr>idT = ''s1'', title = ''Stuck'', description = [],
      start = ''2024-01-01T09:00:00.000Z'', endT = ''2024-01-01T10:00:00.000Z'',
      priority = MEDIUM, reminderMinutes = 15, completed = False,
      recurrence = Some \<lparr>frequency = DAILY, interval = Some 0, until = None\<rparr>,
      completedInstances = None\<rparr>"

text \<open>
  The rent, due monthly from 31 January 2024, 09:00 to 10:30, until 31 March; and
  midnight of 1 April 2024.
\<close>

definition monthly :: RecurrenceConfig where
  "monthly =
     \<lparr>frequency = MONTHLY, interval = Some 1, until = Some ''2024-03-31T00:00:00.000Z''\<rparr>"

definition rent :: Task where
  "rent =
     \<lparr>idT = ''rent'', title = ''Rent'', description = [],
      start = ''2024-01-31T09:00:00.000Z'', endT = ''2024-01-31T10:30:00.000Z'',
      priority = HIGH, reminderMinutes = 30, completed = False,
      recurrence = Some monthly, completedInstances = None\<rparr>"

definition apr1 :: int where
  "apr1 = 1711929600000"

text \<open>
  Two records of a batch import: a call that carries \<open>completed = true\<close> and no reminder,
  and the same call with a reminder of five minutes and no \<open>completed\<close>; and a host whose
  \<open>k\<close>-th identifier is \<open>uuid-\<close> followed by \<open>k\<close> in four digits.
\<close>

definition imported :: PartialTask where
  "imported =
     \<lparr>titleP = ''Call'', descriptionP = None,
      startP = ''2024-01-02T14:00:00.000Z'', endP = ''2024-01-02T14:30:00.000Z'',
      priorityP = MEDIUM, reminderMinutesP = None, recurrenceP = None,
      completedP = Some True\<rparr>"

definition reminded :: PartialTask where
  "reminded = imported\<lparr>reminderMinutesP := Some 5, completedP := None\<rparr>"

definition exampleUUID :: "nat \<Rightarrow> string" where
  "exampleUUID k = ''uuid-'' @ pad 4 (int k)"

text \<open>The stand-up's occurrence of 3 January, as the expansion emits it.\<close>

definition thirdDay :: Task where
  "thirdDay = instanceOf utcHost standup 1704272400000 1704276000000"

text \<open>
  The gym, every second week from Monday 1 January 2024, 18:00 to 19:00; a birthday on 10
  March, a yearly rule that carries no interval; and midnight of 1 February 2024 and of 1
  January 2026.
\<close>

definition gym :: Task where
  "gym =
     \<lparr>idT = ''gym'', title = ''Gym'', description = [],
      start = ''2024-01-01T18:00:00.000Z'', endT = ''2024-01-01T19:00:00.000Z'',
      priority = LOW, reminderMinutes = 10, completed = False,
      recurrence = Some \<lparr>frequency = WEEKLY, interval = Some 2, until = None\<rparr>,
      completedInstances = None\<rparr>"

definition birthday :: Task where
  "birthday =
     \<lparr>idT = ''bday'', title = ''Birthday'', description = [],
      start = ''2024-03-10T00:00:00.000Z'', endT = ''2024-03-11T00:00:00.000Z'',
      priority = MEDIUM, reminderMinutes = 60, completed = False,
      recurrence = Some \<lparr>frequency = YEARLY, interval = None, until = None\<rparr>,
      completedInstances = None\<rparr>"

definition feb1 :: int where
  "feb1 = 1706745600000"

definition jan2026 :: int where
  "jan2026 = 1767225600000"

text \<open>
  A relay that recurs daily and lasts thirty-six hours, from 1 January 2024, 09:00, until
  2 January, so that its two occurrences overlap; and the same series under the id
  \<open>x::y\<close>.
\<close>

definition relay :: Task where
  "relay =
     \<lparr>idT = ''relay'', title = ''Relay'', description = [],
      start = ''2024-01-01T09:00:00.000Z'', endT = ''2024-01-02T21:00:00.000Z'',
      priority = HIGH, reminderMinutes = 15, completed = False,
      recurrence =
        Some \<lparr>frequency = DAILY, interval = Some 1, until = Some ''2024-01-02T23:59:00.000Z''\<rparr>,
      completedInstances = None\<rparr>"

definition tangled :: Task where
  "tangled = relay\<lparr>idT := ''x::y''\<rparr>"

text \<open>The two occurrences of the relay, and of the series \<open>x::y\<close>, as the expansion emits them.\<close>

definition relayDay1 :: Task where
  "relayDay1 = instanceOf utcHost relay 1704099600000 1704229200000"

definition relayDay2 :: Task where
  "relayDay2 = instanceOf utcHost relay 1704186000000 1704315600000"

definition tangledDay1 :: Task where
  "tangledDay1 = instanceOf utcHost tangled 1704099600000 1704229200000"

definition tangledDay2 :: Task where
  "tangledDay2 = instanceOf utcHost tangled 1704186000000 1704315600000"

text \<open>Midnight of 1 January 2024 and of 6 January 2024, UTC.\<close>

definition jan1 :: int where
  "jan1 = 1704067200000"

definition jan6 :: int where
  "jan6 = 1704499200000"

section \<open>Expansion\<close>

lemma whileLoop_walk:
  "whileLoop H task f iv ud dur rs re cs it =
     map (\<lambda>s. instanceOf H task s (s + dur))
       (filter (\<lambda>s. s < re \<and> s + dur > rs)
         (walkStarts (advance H f iv)
            (\<lambda>s. \<not> (s < re \<and> (case ud of None \<Rightarrow> True | Some u \<Rightarrow> s \<le> u)))
            (MAX_ITERATIONS - it) cs))"
proof (induction H task f iv ud dur rs re cs it rule: whileLoop.induct)
  case (1 H task f iv ud dur rs re cs it)
  let ?go = "cs < re \<and> (case ud of None \<Rightarrow> True | Some u \<Rightarrow> cs \<le> u)"
  show ?case
  proof (cases "?go \<and> it < MAX_ITERATIONS")
    case True
    then have c: "cs < re" "(case ud of None \<Rightarrow> True | Some u \<Rightarrow> cs \<le> u)" "it < MAX_ITERATIONS"
      by simp_all
    have n: "MAX_ITERATIONS - it = Suc (MAX_ITERATIONS - (it + 1))"
      using c(3) by simp
    have ih: "whileLoop H task f iv ud dur rs re (advance H f iv cs) (it + 1) =
       map (\<lambda>s. instanceOf H task s (s + dur))
       (filter (\<lambda>s. s < re \<and> s + dur > rs)
         (walkStarts (advance H f iv)
            (\<lambda>s. \<not> (s < re \<and> (case ud of None \<Rightarrow> True | Some u \<Rightarrow> s \<le> u)))
            (MAX_ITERATIONS - (it + 1)) (advance H f iv cs)))"
      using "1.IH" [OF _ refl] c by simp
    show ?thesis
      apply (subst whileLoop.simps)
      apply (subst n)
      using c ih by (simp add: Let_def)
  next
    case False
    then show ?thesis
      apply (subst whileLoop.simps)
      apply (cases "MAX_ITERATIONS - it")
      apply auto
      done
  qed
qed

lemma instanceOf_occurrenceSpec:
  "instanceOf H task s (s + taskDurationOf H task) = occurrenceSpec H task s"
  by (simp add: instanceOf_def occurrenceSpec_def taskDurationOf_def virtualId_def
      isInstanceCompleted_def Let_def)

lemma advance_nextOccurrenceStart: "advance H f iv = nextOccurrenceStart H f iv"
  by (cases f) (simp_all add: advance_def addDays_def addMonths_def addYears_def fun_eq_iff
      mult.commute)

lemma intervalOf_everyN: "intervalOf r = everyN r"
  by (cases "interval r") (simp_all add: intervalOf_def everyN_def)

lemma not_continue_iff_stopsAt:
  "until r \<noteq> Some [] \<Longrightarrow>
   (\<lambda>s. \<not> (s < re \<and> (case untilDateOf H r of None \<Rightarrow> True | Some u \<Rightarrow> s \<le> u)))
     = stopsAt H r re"
  by (auto simp: untilDateOf_def stopsAt_def fun_eq_iff split: option.splits)

lemma expandTask_recurring:
  assumes "recurrence task = Some r" "frequency r \<noteq> NONE" "until r \<noteq> Some []"
  shows "expandTask H ws we task =
           map (occurrenceSpec H task)
             (filter (\<lambda>s. s < we \<and> s + taskDurationOf H task > ws) (visitedStarts H we task r))"
proof -
  have w: "whileLoop H task (frequency r) (intervalOf r) (untilDateOf H r)
             (taskDurationOf H task) ws we (parseDate H (start task)) 0 =
           map (\<lambda>s. instanceOf H task s (s + taskDurationOf H task))
             (filter (\<lambda>s. s < we \<and> s + taskDurationOf H task > ws)
               (visitedStarts H we task r))"
    unfolding whileLoop_walk not_continue_iff_stopsAt [OF assms(3)] visitedStarts_def
      MAX_ITERATIONS_def advance_nextOccurrenceStart intervalOf_everyN
    by simp
  from assms(1,2) show ?thesis
    by (simp add: expandTask_def w instanceOf_occurrenceSpec)
qed

lemma expandTask_expandSpec:
  assumes "untilIsInstant task"
  shows "expandTask H ws we task = expandSpec H ws we task"
proof (cases "recurrence task")
  case None
  then show ?thesis
    by (simp add: expandTask_def expandSpec_def overlapsWindow_def)
next
  case (Some r)
  show ?thesis
  proof (cases "frequency r = NONE")
    case True
    with Some show ?thesis
      by (simp add: expandTask_def expandSpec_def overlapsWindow_def)
  next
    case False
    from assms Some have u: "until r \<noteq> Some []"
      by (simp add: untilIsInstant_def)
    from Some False show ?thesis
      by (simp add: expandTask_recurring [OF Some False u] expandSpec_def overlapsWindow_def
          taskDurationOf_def)
  qed
qed

text \<open>
  Claim C1. For every task list whose \<open>until\<close> fields, where present, hold a date string,
  and for every window (so for every window with windowStart \<le> windowEnd),
  \<open>generateRecurringTasks\<close> returns, task after task, what the specification describes: a
  non-recurring task itself iff its start is before the window's end and its end after the
  window's start; for a recurring task the occurrences at the candidate starts s0 =
  task.start, s(k+1) = step(sk), the step being the interval in days for Daily, seven
  times the interval in days for Weekly, the interval in months for Monthly and in years
  for Yearly, walked until a start is at or after the window's end or after \<open>until\<close>, or
  1000 starts are visited, that overlap the window under the same rule, each with the id
  seriesId + "::" + ISO(start) and with \<open>completed\<close> the membership of ISO(start) in the
  series' \<open>completedInstances\<close>.
\<close>

theorem generateRecurringTasks_expansion:
  assumes "list_all untilIsInstant tasks"
  shows "generateRecurringTasks H tasks windowStart windowEnd =
           concat (map (expandSpec H windowStart windowEnd) tasks)"
  using assms by (induction tasks) (simp_all add: expandTask_expandSpec)

text \<open>
  On the reference host. Over the window from 1 to 6 January the daily stand-up yields its
  occurrences of 1, 2 and 3 January (the walk stops at 4 January, after \<open>until\<close>), that of
  2 January completed, and the meeting is returned as it is. Over January the gym, every
  second week, falls on 1, 15 and 29 January. Over 2024 and 2025 the rent, monthly until
  31 March, falls on 31 January and 2 March, and the birthday, yearly, on 10 March of both
  years.
\<close>

theorem generateRecurringTasks_expansion_witness:
  "list_all untilIsInstant [standup, meeting]
   \<and> list_all untilIsInstant [gym]
   \<and> list_all untilIsInstant [rent, birthday]
   \<and> jan1 \<le> jan6 \<and> jan1 \<le> feb1 \<and> jan1 \<le> jan2026
   \<and> concat (map (expandSpec utcHost jan1 jan6) [standup, meeting]) =
       generateRecurringTasks utcHost [standup, meeting] jan1 jan6
   \<and> map (\<lambda>t. (idT t, completed t)) (concat (map (expandSpec utcHost jan1 jan6) [standup, meeting])) =
       [(''abc::2024-01-01T09:00:00.000Z'', False),
        (''abc::2024-01-02T09:00:00.000Z'', True),
        (''abc::2024-01-03T09:00:00.000Z'', False),
        (''m1'', False)]
   \<and> map idT (concat (map (expandSpec utcHost jan1 feb1) [gym])) =
       [''gym::2024-01-01T18:00:00.000Z'', ''gym::2024-01-15T18:00:00.000Z'',
        ''gym::2024-01-29T18:00:00.000Z'']
   \<and> map idT (concat (map (expandSpec utcHost jan1 jan2026) [rent, birthday])) =
       [''rent::2024-01-31T09:00:00.000Z'', ''rent::2024-03-02T09:00:00.000Z'',
        ''bday::2024-03-10T00:00:00.000Z'', ''bday::2025-03-10T00:00:00.000Z'']"
proof -
  have wf: "list_all untilIsInstant [standup, meeting]" "list_all untilIsInstant [gym]"
    "list_all untilIsInstant [rent, birthday]"
    by code_simp+
  have win: "jan1 \<le> jan6" "jan1 \<le> feb1" "jan1 \<le> jan2026"
    by code_simp+
  have run1: "map (\<lambda>t. (idT t, completed t))
       (generateRecurringTasks utcHost [standup, meeting] jan1 jan6) =
       [(''abc::2024-01-01T09:00:00.000Z'', False),
        (''abc::2024-01-02T09:00:00.000Z'', True),
        (''abc::2024-01-03T09:00:00.000Z'', False),
        (''m1'', False)]"
    by code_simp
  have run2: "map idT (generateRecurringTasks utcHost [gym] jan1 feb1) =
       [''gym::2024-01-01T18:00:00.000Z'', ''gym::2024-01-15T18:00:00.000Z'',
        ''gym::2024-01-29T18:00:00.000Z'']"
    by code_simp
  have run3: "map idT (generateRecurringTasks utcHost [rent, birthday] jan1 jan2026) =
       [''rent::2024-01-31T09:00:00.000Z'', ''rent::2024-03-02T09:00:00.000Z'',
        ''bday::2024-03-10T00:00:00.000Z'', ''bday::2025-03-10T00:00:00.000Z'']"
    by code_simp
  note e1 = generateRecurringTasks_expansion [OF wf(1), of utcHost jan1 jan6]
  note e2 = generateRecurringTasks_expansion [OF wf(2), of utcHost jan1 feb1]
  note e3 = generateRecurringTasks_expansion [OF wf(3), of utcHost jan1 jan2026]
  from wf win run1 run2 run3 e1 e2 e3 show ?thesis
    by (simp only: simp_thms)
qed

lemma walkStarts_fixed:
  "step s = s \<Longrightarrow> \<not> stop s \<Longrightarrow> walkStarts step stop n s = replicate n s"
  by (induction n) simp_all

lemma whileLoop_fixed:
  assumes "advance H f iv cs = cs" "cs < re"
    and "(case ud of None \<Rightarrow> True | Some u \<Rightarrow> cs \<le> u)" "cs + dur > rs"
  shows "whileLoop H task f iv ud dur rs re cs it =
           replicate (MAX_ITERATIONS - it) (instanceOf H task cs (cs + dur))"
proof -
  have "walkStarts (advance H f iv)
          (\<lambda>s. \<not> (s < re \<and> (case ud of None \<Rightarrow> True | Some u \<Rightarrow> s \<le> u)))
          (MAX_ITERATIONS - it) cs = replicate (MAX_ITERATIONS - it) cs"
    using assms(1-3) by (intro walkStarts_fixed) simp_all
  then show ?thesis
    using assms(2,4) by (simp add: whileLoop_walk)
qed

lemma stuck_expansion:
  assumes "1704099600000 < we" "ws < 1704103200000"
  shows "generateRecurringTasks utcHost [stuck] ws we =
           replicate 1000 (instanceOf utcHost stuck 1704099600000 1704103200000)"
proof -
  have e: "parseDate utcHost (start stuck) = 1704099600000"
    "taskDurationOf utcHost stuck = 3600000"
    "advance utcHost DAILY 0 1704099600000 = 1704099600000"
    by code_simp+
  have r: "recurrence stuck = Some \<lparr>frequency = DAILY, interval = Some 0, until = None\<rparr>"
    by (simp add: stuck_def)
  have "expandTask utcHost ws we stuck =
     replicate 1000 (instanceOf utcHost stuck 1704099600000 1704103200000)"
    using whileLoop_fixed [where H = utcHost and f = DAILY and iv = 0 and cs = 1704099600000
        and re = we and ud = None and dur = 3600000 and rs = ws and task = stuck and it = 0]
      e assms
    by (simp add: expandTask_def r intervalOf_def untilDateOf_def MAX_ITERATIONS_def)
  then show ?thesis by simp
qed

text \<open>
  Claim C5 fails on the code. The series \<open>stuck\<close> recurs daily with the interval 0; the
  expansion uses the 0 as it is, the step leaves the start where it was, and the loop runs
  to its cap: over the window from 1 to 6 January the result is the occurrence of 1 January
  a thousand times. With the interval 1 the same series yields its five occurrences.
\<close>

theorem generateRecurringTasks_interval_zero:
  "recurrence stuck = Some \<lparr>frequency = DAILY, interval = Some 0, until = None\<rparr>
   \<and> advance utcHost DAILY 0 1704099600000 = 1704099600000
   \<and> generateRecurringTasks utcHost [stuck] jan1 jan6 =
       replicate 1000 (instanceOf utcHost stuck 1704099600000 1704103200000)
   \<and> idT (instanceOf utcHost stuck 1704099600000 1704103200000) = ''s1::2024-01-01T09:00:00.000Z''
   \<and> map idT (generateRecurringTasks utcHost
         [stuck\<lparr>recurrence := Some \<lparr>frequency = DAILY, interval = Some 1, until = None\<rparr>\<rparr>]
         jan1 jan6) =
       [''s1::2024-01-01T09:00:00.000Z'', ''s1::2024-01-02T09:00:00.000Z'',
        ''s1::2024-01-03T09:00:00.000Z'', ''s1::2024-01-04T09:00:00.000Z'',
        ''s1::2024-01-05T09:00:00.000Z'']"
proof -
  have r: "recurrence stuck = Some \<lparr>frequency = DAILY, interval = Some 0, until = None\<rparr>"
    by (simp add: stuck_def)
  have a: "advance utcHost DAILY 0 1704099600000 = 1704099600000"
    by code_simp
  have w: "1704099600000 < jan6" "jan1 < 1704103200000"
    by code_simp+
  have "generateRecurringTasks utcHost [stuck] jan1 jan6 =
     replicate 1000 (instanceOf utcHost stuck 1704099600000 1704103200000)"
    using w by (rule stuck_expansion)
  moreover have "idT (instanceOf utcHost stuck 1704099600000 1704103200000) = ''s1::2024-01-01T09:00:00.000Z''"
    by code_simp
  moreover have "map idT (generateRecurringTasks utcHost
         [stuck\<lparr>recurrence := Some \<lparr>frequency = DAILY, interval = Some 1, until = None\<rparr>\<rparr>]
         jan1 jan6) =
       [''s1::2024-01-01T09:00:00.000Z'', ''s1::2024-01-02T09:00:00.000Z'',
        ''s1::2024-01-03T09:00:00.000Z'', ''s1::2024-01-04T09:00:00.000Z'',
        ''s1::2024-01-05T09:00:00.000Z'']"
    by code_simp
  ultimately show ?thesis using a r by simp
qed

text \<open>
  What the expansion writes into an occurrence of a recurring series: the ISO strings of a
  start and of the instant one series duration later.
\<close>

lemma occurrence_span:
  assumes "recurrence task = Some r" "frequency r \<noteq> NONE"
    and "occ \<in> set (expandTask H ws we task)"
  shows "\<exists>s. start occ = toISOString H s
             \<and> endT occ = toISOString H (s + taskDurationOf H task)"
  using assms
  by (auto simp: expandTask_def whileLoop_walk instanceOf_def Let_def)

text \<open>
  Claim C6. Every occurrence emitted for a recurring series ends exactly as long after its
  start as the series: the instants read back from the occurrence's \<open>end\<close> and \<open>start\<close>
  differ by the series' end minus its start, whatever the frequency. The host has to read
  back the instants it rendered: the ISO strings of the starts the walk visits, and of the
  ends that belong to them.
\<close>

theorem occurrence_duration:
  assumes "recurrence task = Some r" "frequency r \<noteq> NONE" "until r \<noteq> Some []"
    and "\<forall>s \<in> set (visitedStarts H windowEnd task r).
           parseDate H (toISOString H s) = s
           \<and> parseDate H (toISOString H (s + taskDurationOf H task)) = s + taskDurationOf H task"
    and "occ \<in> set (generateRecurringTasks H [task] windowStart windowEnd)"
  shows "parseDate H (endT occ) - parseDate H (start occ) =
           parseDate H (endT task) - parseDate H (start task)"
proof -
  from assms(5) obtain s where s: "s \<in> set (visitedStarts H windowEnd task r)"
    and occ: "occ = occurrenceSpec H task s"
    by (auto simp: expandTask_recurring [OF assms(1-3)])
  from assms(4) s have rt: "parseDate H (toISOString H s) = s"
    "parseDate H (toISOString H (s + taskDurationOf H task)) = s + taskDurationOf H task"
    by blast+
  show ?thesis
    using rt by (simp add: occ occurrenceSpec_def taskDurationOf_def)
qed

text \<open>
  On the reference host, the rent over the window from 1 January to 1 April: the walk
  visits 31 January and 2 March (one month after 31 January, by the host's arithmetic), and
  the occurrence of 2 March lasts the series' ninety minutes.
\<close>

theorem occurrence_duration_witness:
  "recurrence rent = Some monthly \<and> frequency monthly \<noteq> NONE \<and> until monthly \<noteq> Some []
   \<and> visitedStarts utcHost apr1 rent monthly = [1706691600000, 1709370000000]
   \<and> taskDurationOf utcHost rent = 5400000
   \<and> parseDate utcHost (toISOString utcHost 1706691600000) = 1706691600000
   \<and> parseDate utcHost (toISOString utcHost (1706691600000 + 5400000)) = 1706691600000 + 5400000
   \<and> parseDate utcHost (toISOString utcHost 1709370000000) = 1709370000000
   \<and> parseDate utcHost (toISOString utcHost (1709370000000 + 5400000)) = 1709370000000 + 5400000
   \<and> map (\<lambda>t. (start t, endT t)) (generateRecurringTasks utcHost [rent] jan1 apr1) =
       [(''2024-01-31T09:00:00.000Z'', ''2024-01-31T10:30:00.000Z''),
        (''2024-03-02T09:00:00.000Z'', ''2024-03-02T10:30:00.000Z'')]
   \<and> parseDate utcHost (endT (generateRecurringTasks utcHost [rent] jan1 apr1 ! 1))
       - parseDate utcHost (start (generateRecurringTasks utcHost [rent] jan1 apr1 ! 1))
       = parseDate utcHost (endT rent) - parseDate utcHost (start rent)"
proof -
  have r: "recurrence rent = Some monthly" "frequency monthly \<noteq> NONE" "until monthly \<noteq> Some []"
    by code_simp+
  have v: "visitedStarts utcHost apr1 rent monthly = [1706691600000, 1709370000000]"
    by code_simp
  have d: "taskDurationOf utcHost rent = 5400000"
    by code_simp
  have rt: "parseDate utcHost (toISOString utcHost 1706691600000) = 1706691600000"
    "parseDate utcHost (toISOString utcHost (1706691600000 + 5400000)) = 1706691600000 + 5400000"
    "parseDate utcHost (toISOString utcHost 1709370000000) = 1709370000000"
    "parseDate utcHost (toISOString utcHost (1709370000000 + 5400000)) = 1709370000000 + 5400000"
    by code_simp+
  have run: "map (\<lambda>t. (start t, endT t)) (generateRecurringTasks utcHost [rent] jan1 apr1) =
       [(''2024-01-31T09:00:00.000Z'', ''2024-01-31T10:30:00.000Z''),
        (''2024-03-02T09:00:00.000Z'', ''2024-03-02T10:30:00.000Z'')]"
    by code_simp
  have "length (map (\<lambda>t. (start t, endT t)) (generateRecurringTasks utcHost [rent] jan1 apr1)) = 2"
    unfolding run by simp
  then have mem: "generateRecurringTasks utcHost [rent] jan1 apr1 ! 1
      \<in> set (generateRecurringTasks utcHost [rent] jan1 apr1)"
    by (intro nth_mem) simp
  have hyp: "\<forall>s \<in> set (visitedStarts utcHost apr1 rent monthly).
           parseDate utcHost (toISOString utcHost s) = s
           \<and> parseDate utcHost (toISOString utcHost (s + taskDurationOf utcHost rent))
             = s + taskDurationOf utcHost rent"
    unfolding v d using rt by simp
  have "parseDate utcHost (endT (generateRecurringTasks utcHost [rent] jan1 apr1 ! 1))
       - parseDate utcHost (start (generateRecurringTasks utcHost [rent] jan1 apr1 ! 1))
       = parseDate utcHost (endT rent) - parseDate utcHost (start rent)"
    using occurrence_duration [OF r hyp mem] .
  with r v d rt run show ?thesis by blast
qed

text \<open>
  Claim C4, as amended. For a window with windowStart > windowEnd the expansion does not
  fail, and it is empty whenever no task of the list lasts longer than windowStart -
  windowEnd. (An occurrence is emitted when it starts before windowEnd and ends after
  windowStart, which an occurrence longer than that gap can do.)
\<close>

theorem generateRecurringTasks_inverted_window:
  assumes "windowStart > windowEnd"
    and "\<forall>task \<in> set tasks.
           parseDate H (endT task) - parseDate H (start task) \<le> windowStart - windowEnd"
  shows "generateRecurringTasks H tasks windowStart windowEnd = []"
  using assms(2)
proof (induction tasks)
  case Nil
  show ?case by simp
next
  case (Cons task tasks)
  from Cons.prems have d: "taskDurationOf H task \<le> windowStart - windowEnd"
    by (simp add: taskDurationOf_def)
  have none: "(\<lambda>s. s < windowEnd \<and> s + taskDurationOf H task > windowStart) = (\<lambda>s. False)"
    using d by auto
  have "expandTask H windowStart windowEnd task = []"
    using d by (auto simp: expandTask_def whileLoop_walk none taskDurationOf_def
        split: option.splits)
  with Cons show ?case by simp
qed

text \<open>
  On the reference host, over the inverted window from 6 January back to 1 January, the
  stand-up and the meeting (one hour each) yield nothing.
\<close>

theorem generateRecurringTasks_inverted_window_witness:
  "jan6 > jan1
   \<and> parseDate utcHost (endT standup) - parseDate utcHost (start standup) \<le> jan6 - jan1
   \<and> parseDate utcHost (endT meeting) - parseDate utcHost (start meeting) \<le> jan6 - jan1
   \<and> generateRecurringTasks utcHost [standup, meeting] jan6 jan1 = []"
proof -
  have win: "jan6 > jan1"
    by code_simp
  have d1: "parseDate utcHost (endT standup) - parseDate utcHost (start standup) \<le> jan6 - jan1"
    by code_simp
  have d2: "parseDate utcHost (endT meeting) - parseDate utcHost (start meeting) \<le> jan6 - jan1"
    by code_simp
  have "generateRecurringTasks utcHost [standup, meeting] jan6 jan1 = []"
    using generateRecurringTasks_inverted_window [of jan1 jan6 "[standup, meeting]" utcHost]
      win d1 d2 by simp
  with win d1 d2 show ?thesis by blast
qed

text \<open>
  The claim as stated fails: over the inverted window from 6 January back to 1 January the
  offsite, which starts before 1 January and ends after 6 January, is returned.
\<close>

theorem generateRecurringTasks_inverted_window_counterexample:
  "jan6 > jan1 \<and> generateRecurringTasks utcHost [offsite] jan6 jan1 = [offsite]"
  by code_simp

section \<open>Virtual identities\<close>

lemma split_sep_nonempty: "split_sep v \<noteq> []"
  by (induction v rule: split_sep.induct) (auto split: list.splits)

lemma split_sep_splitFirst:
  "split_sep v = (case splitFirst v of None \<Rightarrow> [v] | Some (a, b) \<Rightarrow> a # split_sep b)"
proof (induction v rule: split_sep.induct)
  case (1 c d cs)
  then show ?case
    by (auto split: option.splits list.splits simp: split_sep_nonempty)
qed simp_all

lemma length_split_sep_one: "length (split_sep v) = Suc 0 \<longleftrightarrow> \<not> containsSep v"
  by (subst split_sep_splitFirst)
     (auto simp: containsSep_def split_sep_nonempty split: option.splits)

lemma split_sep_single: "\<not> containsSep v \<Longrightarrow> split_sep v = [v]"
  by (subst split_sep_splitFirst) (cases "splitFirst v"; simp add: containsSep_def)

lemma parseVirtualId_splitFirst:
  "parseVirtualId v =
     (case splitFirst v of
        None \<Rightarrow> (v, None)
      | Some (a, b) \<Rightarrow> if containsSep b then (v, None) else (a, Some b))"
proof (cases "splitFirst v")
  case None
  then have "split_sep v = [v]"
    by (simp add: split_sep_single containsSep_def)
  with None show ?thesis
    by (simp add: parseVirtualId_def)
next
  case (Some ab)
  obtain a b where ab: "ab = (a, b)" by (cases ab)
  have parts: "split_sep v = a # split_sep b"
    using Some ab by (subst split_sep_splitFirst) simp
  show ?thesis
  proof (cases "containsSep b")
    case True
    then have "length (split_sep b) \<noteq> Suc 0"
      by (simp add: length_split_sep_one)
    with parts Some ab True show ?thesis
      by (simp add: parseVirtualId_def)
  next
    case False
    then have "split_sep b = [b]"
      by (rule split_sep_single)
    with parts Some ab False show ?thesis
      by (simp add: parseVirtualId_def)
  qed
qed

lemma splitFirst_append:
  "\<not> containsSep sid \<Longrightarrow> \<not> endsWithColon sid \<Longrightarrow>
   splitFirst (sid @ CHR '':'' # CHR '':'' # rest) = Some (sid, rest)"
proof (induction sid rule: splitFirst.induct)
  case (1 c d cs)
  from "1.prems"(1) have nb: "\<not> (c = CHR '':'' \<and> d = CHR '':'')"
    by (auto simp: containsSep_def)
  with "1.prems"(1) have "\<not> containsSep (d # cs)"
    by (auto simp: containsSep_def split: option.splits)
  moreover from "1.prems"(2) have "\<not> endsWithColon (d # cs)"
    by (simp add: endsWithColon_def)
  ultimately have "splitFirst ((d # cs) @ CHR '':'' # CHR '':'' # rest) = Some (d # cs, rest)"
    using "1.IH" nb by blast
  with nb show ?case by auto
qed (simp_all add: endsWithColon_def)

lemma parseVirtualId_virtualId:
  assumes "\<not> containsSep sid" "\<not> endsWithColon sid" "\<not> containsSep startIso"
  shows "parseVirtualId (virtualId sid startIso) = (sid, Some startIso)"
  using assms by (simp add: parseVirtualId_splitFirst virtualId_def splitFirst_append)

lemma splitFirst_Some:
  "splitFirst s = Some (a, b) \<Longrightarrow> s = a @ ''::'' @ b"
  by (induction s arbitrary: a rule: splitFirst.induct) (auto split: if_splits option.splits)

lemma containsSep_append: "containsSep (a @ CHR '':'' # CHR '':'' # b)"
proof (induction a rule: splitFirst.induct)
  case (1 c d cs)
  show ?case
  proof (cases "c = CHR '':'' \<and> d = CHR '':''")
    case True
    then show ?thesis by (simp add: containsSep_def)
  next
    case False
    with "1.IH" have "containsSep ((d # cs) @ CHR '':'' # CHR '':'' # b)" by blast
    with False show ?thesis by (auto simp: containsSep_def split: option.splits)
  qed
qed (auto simp: containsSep_def split: option.splits)

lemma containsSep_iff: "containsSep s \<longleftrightarrow> (\<exists>a b. s = a @ ''::'' @ b)"
proof
  assume "containsSep s"
  then obtain a b where "splitFirst s = Some (a, b)"
    by (auto simp: containsSep_def)
  then have "s = a @ ''::'' @ b"
    by (rule splitFirst_Some)
  then show "\<exists>a b. s = a @ ''::'' @ b" by blast
next
  assume "\<exists>a b. s = a @ ''::'' @ b"
  then obtain a b where s: "s = a @ ''::'' @ b" by blast
  show "containsSep s"
    unfolding s using containsSep_append [of a b] by simp
qed

text \<open>
  The ISO strings of the reference host never hold the separator: their colons stand
  between digits. So every occurrence the expansion emits for a series whose id neither
  holds the separator nor ends with a colon decodes to that series id.
\<close>

lemma digit_char_not_colon: "char_of (48 + x mod 10 :: int) \<noteq> CHR '':''"
proof
  assume "char_of (48 + x mod 10 :: int) = CHR '':''"
  then have "(of_char (char_of (48 + x mod 10 :: int)) :: int) = of_char (CHR '':'')"
    by simp
  then have "(48 + x mod 10) mod 256 = (58 :: int)"
    by (simp add: of_char_of)
  moreover have "0 \<le> x mod 10" "x mod 10 < 10"
    by simp_all
  ultimately show False
    by simp
qed

lemma pad_no_colon: "CHR '':'' \<notin> set (pad n x)"
proof (induction n arbitrary: x)
  case 0
  show ?case by simp
next
  case (Suc n)
  have "CHR '':'' \<noteq> char_of (48 + x mod 10 :: int)"
    using digit_char_not_colon [of x] by (rule not_sym)
  with Suc show ?case by simp
qed

lemma no_colon_no_sep: "CHR '':'' \<notin> set xs \<Longrightarrow> \<not> containsSep xs"
  by (induction xs rule: splitFirst.induct) (auto simp: containsSep_def split: option.splits)

lemma containsSep_skip:
  "CHR '':'' \<notin> set xs \<Longrightarrow> containsSep (xs @ ys) \<longleftrightarrow> containsSep ys"
proof (induction xs)
  case Nil
  show ?case by simp
next
  case (Cons x xs)
  then have x: "x \<noteq> CHR '':''" and ih: "containsSep (xs @ ys) \<longleftrightarrow> containsSep ys"
    by auto
  show ?case
  proof (cases "xs @ ys")
    case Nil
    then show ?thesis by (simp add: containsSep_def)
  next
    case (Cons z zs)
    have "containsSep (x # z # zs) \<longleftrightarrow> containsSep (z # zs)"
      using x by (auto simp: containsSep_def split: option.splits)
    with ih Cons show ?thesis by simp
  qed
qed

lemma containsSep_colon:
  "c \<noteq> CHR '':'' \<Longrightarrow> containsSep (CHR '':'' # c # ys) \<longleftrightarrow> containsSep (c # ys)"
  by (auto simp: containsSep_def split: option.splits)

lemma pad_Suc_Cons: "\<exists>c cs. pad (Suc n) x = c # cs \<and> c \<noteq> CHR '':''"
proof (cases "pad (Suc n) x")
  case Nil
  then show ?thesis by simp
next
  case (Cons c cs)
  then have "c \<in> set (pad (Suc n) x)" by simp
  with pad_no_colon [of "Suc n" x] have "c \<noteq> CHR '':''" by metis
  with Cons show ?thesis by simp
qed

lemma isoString_no_sep: "\<not> containsSep (isoString t)"
proof -
  obtain y m d where c: "civilFromDays (t div msPerDay) = (y, m, d)"
    by (cases "civilFromDays (t div msPerDay)")
  define tw where "tw = t mod msPerDay"
  define year where "year = (if 0 \<le> y \<and> y \<le> 9999 then pad 4 y
            else (if y < 0 then ''-'' else ''+'') @ pad 6 (abs y))"
  define front where "front = year @ ''-'' @ pad 2 (m + 1) @ ''-'' @ pad 2 d
           @ ''T'' @ pad 2 (tw div 3600000)"
  define rest where "rest = pad 3 (tw mod 1000) @ ''Z''"
  have iso: "isoString t = front @ CHR '':'' # pad 2 (tw div 60000 mod 60)
      @ CHR '':'' # pad 2 (tw div 1000 mod 60) @ CHR ''.'' # rest"
    by (simp add: isoString_def c Let_def front_def rest_def year_def tw_def del: pad.simps)
  have f: "CHR '':'' \<notin> set front"
    by (simp add: front_def year_def pad_no_colon del: pad.simps)
  have b: "CHR '':'' \<notin> set (CHR ''.'' # rest)"
    by (simp add: rest_def pad_no_colon del: pad.simps)
  obtain c1 r1 where p1: "pad 2 (tw div 60000 mod 60) = c1 # r1" "c1 \<noteq> CHR '':''"
    using pad_Suc_Cons [of 1 "tw div 60000 mod 60"] by (auto simp: numeral_2_eq_2)
  obtain c2 r2 where p2: "pad 2 (tw div 1000 mod 60) = c2 # r2" "c2 \<noteq> CHR '':''"
    using pad_Suc_Cons [of 1 "tw div 1000 mod 60"] by (auto simp: numeral_2_eq_2)
  have n1: "CHR '':'' \<notin> set (c1 # r1)"
    using pad_no_colon [of 2 "tw div 60000 mod 60"] unfolding p1 .
  have n2: "CHR '':'' \<notin> set (c2 # r2)"
    using pad_no_colon [of 2 "tw div 1000 mod 60"] unfolding p2 .
  have "containsSep (isoString t) \<longleftrightarrow>
        containsSep (CHR '':'' # c1 # r1 @ CHR '':'' # c2 # r2 @ CHR ''.'' # rest)"
    unfolding iso p1 p2 using containsSep_skip [OF f] by simp
  also have "\<dots> \<longleftrightarrow> containsSep ((c1 # r1) @ CHR '':'' # c2 # r2 @ CHR ''.'' # rest)"
    using containsSep_colon [OF p1(2)] by simp
  also have "\<dots> \<longleftrightarrow> containsSep (CHR '':'' # c2 # r2 @ CHR ''.'' # rest)"
    by (rule containsSep_skip [OF n1])
  also have "\<dots> \<longleftrightarrow> containsSep ((c2 # r2) @ CHR ''.'' # rest)"
    using containsSep_colon [OF p2(2)] by simp
  also have "\<dots> \<longleftrightarrow> containsSep (CHR ''.'' # rest)"
    by (rule containsSep_skip [OF n2])
  also have "\<dots> \<longleftrightarrow> False"
    using no_colon_no_sep [OF b] by simp
  finally show ?thesis by simp
qed


lemma utcHost_no_sep: "\<not> containsSep (toISOString utcHost s)"
  by (simp add: utcHost_def isoString_no_sep)

lemma expandTask_occurrence:
  assumes "occ \<in> set (expandTask H ws we task)"
  shows "occ = task \<or> (\<exists>s e. occ = instanceOf H task s e)"
  using assms
  by (auto simp: expandTask_def whileLoop_walk split: option.splits if_splits)

lemma occurrence_decodes:
  assumes "\<not> containsSep (idT task)" "\<not> endsWithColon (idT task)"
    and "\<And>s. \<not> containsSep (toISOString H s)"
    and "occ \<in> set (expandTask H ws we task)"
  shows "fst (parseVirtualId (idT occ)) = idT task"
proof -
  from expandTask_occurrence [OF assms(4)] show ?thesis
  proof (elim disjE exE)
    assume "occ = task"
    moreover from assms(1) have "splitFirst (idT task) = None"
      by (cases "splitFirst (idT task)") (simp_all add: containsSep_def)
    ultimately show ?thesis
      by (simp add: parseVirtualId_splitFirst)
  next
    fix s e assume "occ = instanceOf H task s e"
    then have "idT occ = virtualId (idT task) (toISOString H s)"
      by (simp add: instanceOf_def Let_def)
    then show ?thesis
      using parseVirtualId_virtualId [OF assms(1,2) assms(3) [of s]] by simp
  qed
qed

text \<open>
  Claim C3, as amended. The expansion encodes an occurrence as seriesId + "::" + the ISO
  string of its start. \<open>parseVirtualId\<close> never fails. It splits its input at the first
  occurrence of the separator when the rest of the input holds no further separator; when
  the separator is absent, and also when it occurs again after its first occurrence, the
  whole input is the series id and there is no occurrence instant. So decoding an encoded
  occurrence gives back the series id and the instant string for every series id that
  neither contains the separator nor ends with a colon, and every instant string without
  the separator.
\<close>

theorem parseVirtualId_decode:
  "idT (instanceOf H task s e) = idT task @ ''::'' @ toISOString H s
   \<and> parseVirtualId v =
     (case splitFirst v of
        None \<Rightarrow> (v, None)
      | Some (a, b) \<Rightarrow> if containsSep b then (v, None) else (a, Some b))
   \<and> (\<not> containsSep seriesId \<and> \<not> endsWithColon seriesId \<and> \<not> containsSep startIso
        \<longrightarrow> parseVirtualId (seriesId @ ''::'' @ startIso) = (seriesId, Some startIso))"
proof (intro conjI impI)
  show "idT (instanceOf H task s e) = idT task @ ''::'' @ toISOString H s"
    by (simp add: instanceOf_def virtualId_def Let_def)
next
  show "parseVirtualId v =
     (case splitFirst v of
        None \<Rightarrow> (v, None)
      | Some (a, b) \<Rightarrow> if containsSep b then (v, None) else (a, Some b))"
    by (rule parseVirtualId_splitFirst)
next
  assume "\<not> containsSep seriesId \<and> \<not> endsWithColon seriesId \<and> \<not> containsSep startIso"
  then show "parseVirtualId (seriesId @ ''::'' @ startIso) = (seriesId, Some startIso)"
    using parseVirtualId_virtualId [of seriesId startIso] by (simp add: virtualId_def)
qed

text \<open>
  The series id \<open>abc\<close> and the instant 2024-01-01T09:00:00.000Z of the reference host
  round-trip, and \<open>abc\<close> alone decodes to itself with no instant.
\<close>

theorem parseVirtualId_decode_witness:
  "\<not> containsSep ''abc'' \<and> \<not> endsWithColon ''abc''
   \<and> \<not> containsSep (toISOString utcHost 1704099600000)
   \<and> toISOString utcHost 1704099600000 = ''2024-01-01T09:00:00.000Z''
   \<and> idT (instanceOf utcHost standup 1704099600000 1704103200000)
       = ''abc::2024-01-01T09:00:00.000Z''
   \<and> parseVirtualId (''abc'' @ ''::'' @ toISOString utcHost 1704099600000) =
       (''abc'', Some (toISOString utcHost 1704099600000))
   \<and> parseVirtualId ''abc'' = (''abc'', None)"
proof -
  have h: "\<not> containsSep ''abc'' \<and> \<not> endsWithColon ''abc''
      \<and> \<not> containsSep (toISOString utcHost 1704099600000)"
    by code_simp
  have iso: "toISOString utcHost 1704099600000 = ''2024-01-01T09:00:00.000Z''"
    by code_simp
  have sid: "idT standup = ''abc''"
    by (simp add: standup_def)
  have none: "splitFirst ''abc'' = None"
    by code_simp
  have "parseVirtualId ''abc'' = (''abc'', None)"
    using parseVirtualId_decode [of _ _ _ _ "''abc''"] none by simp
  moreover have "parseVirtualId (''abc'' @ ''::'' @ toISOString utcHost 1704099600000) =
       (''abc'', Some (toISOString utcHost 1704099600000))"
    using parseVirtualId_decode [of _ _ _ _ _ "''abc''" "toISOString utcHost 1704099600000"] h
    by blast
  moreover have "idT (instanceOf utcHost standup 1704099600000 1704103200000)
       = ''abc::2024-01-01T09:00:00.000Z''"
    using parseVirtualId_decode [of utcHost standup 1704099600000 1704103200000] sid iso
    by simp
  ultimately show ?thesis using h iso by blast
qed

text \<open>
  The claim as stated fails twice. The input \<open>a::b::c\<close> is not split at its first
  separator: it is returned whole, with no instant. And the series id \<open>a:\<close>, which does
  not contain the separator, does not round-trip: its colon joins the separator, and the
  decoded id is \<open>a\<close>.
\<close>

theorem parseVirtualId_decode_counterexample:
  "parseVirtualId ''a::b::c'' = (''a::b::c'', None)
   \<and> decodeSpec ''a::b::c'' = (''a'', Some ''b::c'')
   \<and> \<not> containsSep ''a:''
   \<and> parseVirtualId (virtualId ''a:'' (toISOString utcHost 1704099600000))
       = (''a'', Some '':2024-01-01T09:00:00.000Z'')"
  by code_simp

section \<open>Batch import\<close>

lemma length_formatTasks: "length (formatTasks u k ts) = length ts"
  by (induction ts arbitrary: k) simp_all

lemma nth_formatTasks:
  "i < length ts \<Longrightarrow> formatTasks u k ts ! i = formatTask (u (k + i)) (ts ! i)"
proof (induction ts arbitrary: k i)
  case Nil
  then show ?case by simp
next
  case (Cons t ts)
  then show ?case by (cases i) simp_all
qed

lemma nth_admitted:
  "i < length newTasks \<Longrightarrow>
   fst (handleBatchImport u k newTasks prev) ! (length prev + i)
     = formatTask (u (k + i)) (newTasks ! i)"
  by (simp add: handleBatchImport_def nth_append nth_formatTasks)

text \<open>
  Claim C7, as amended. For every sequence of partial task records, and a host whose
  identifiers for this import are pairwise distinct and not in the task list,
  \<open>handleBatchImport\<close> appends one task per record to the list, in order; each admitted
  task has a fresh series id (the host's, new to the list and to the other admitted tasks)
  and \<open>completed = false\<close>, whatever the record supplies; its \<open>reminderMinutes\<close> is 15
  when the record has none, and the record's when it supplies one other than 0.
\<close>

theorem handleBatchImport_admits:
  assumes "distinct (map randomUUID [k..<k + length newTasks])"
    and "\<forall>j \<in> {k..<k + length newTasks}. randomUUID j \<notin> idT ` set prev"
    and "i < length newTasks"
  shows "length (fst (handleBatchImport randomUUID k newTasks prev)) = length prev + length newTasks
     \<and> take (length prev) (fst (handleBatchImport randomUUID k newTasks prev)) = prev
     \<and> snd (handleBatchImport randomUUID k newTasks prev) = k + length newTasks
     \<and> idT (fst (handleBatchImport randomUUID k newTasks prev) ! (length prev + i)) = randomUUID (k + i)
     \<and> randomUUID (k + i) \<notin> idT ` set prev
     \<and> (\<forall>j < length newTasks. j \<noteq> i \<longrightarrow>
           idT (fst (handleBatchImport randomUUID k newTasks prev) ! (length prev + j))
             \<noteq> randomUUID (k + i))
     \<and> completed (fst (handleBatchImport randomUUID k newTasks prev) ! (length prev + i)) = False
     \<and> (reminderMinutesP (newTasks ! i) = None \<longrightarrow>
           reminderMinutes (fst (handleBatchImport randomUUID k newTasks prev) ! (length prev + i)) = 15)
     \<and> (\<forall>m. reminderMinutesP (newTasks ! i) = Some m \<and> m \<noteq> 0 \<longrightarrow>
           reminderMinutes (fst (handleBatchImport randomUUID k newTasks prev) ! (length prev + i)) = m)"
proof -
  let ?r = "fst (handleBatchImport randomUUID k newTasks prev)"
  have a: "?r ! (length prev + i) = formatTask (randomUUID (k + i)) (newTasks ! i)"
    using assms(3) by (rule nth_admitted)
  have len: "length ?r = length prev + length newTasks"
    by (simp add: handleBatchImport_def length_formatTasks)
  have tk: "take (length prev) ?r = prev"
    by (simp add: handleBatchImport_def)
  have cnt: "snd (handleBatchImport randomUUID k newTasks prev) = k + length newTasks"
    by (simp add: handleBatchImport_def)
  have new: "randomUUID (k + i) \<notin> idT ` set prev"
    using assms(2,3) by simp
  have others: "\<forall>j < length newTasks. j \<noteq> i \<longrightarrow> idT (?r ! (length prev + j)) \<noteq> randomUUID (k + i)"
  proof (intro allI impI)
    fix j assume j: "j < length newTasks" "j \<noteq> i"
    have "map randomUUID [k..<k + length newTasks] ! j \<noteq> map randomUUID [k..<k + length newTasks] ! i"
      using assms(1,3) j by (simp add: distinct_conv_nth del: nth_map)
    then have "randomUUID (k + j) \<noteq> randomUUID (k + i)"
      using assms(3) j by simp
    then show "idT (?r ! (length prev + j)) \<noteq> randomUUID (k + i)"
      using j by (simp add: nth_admitted formatTask_def)
  qed
  show ?thesis
    using len tk cnt new others
    by (simp add: a formatTask_def)
qed


text \<open>
  Importing the two example calls into a list that holds the meeting: the meeting stays
  first, the calls get the identifiers \<open>uuid-0000\<close> and \<open>uuid-0001\<close>, the first call's
  reminder defaults to 15 and the second keeps its 5.
\<close>

theorem handleBatchImport_admits_witness:
  "distinct (map exampleUUID [0..<0 + length [imported, reminded]])
   \<and> exampleUUID 0 \<notin> idT ` set [meeting] \<and> exampleUUID 1 \<notin> idT ` set [meeting]
   \<and> reminderMinutesP ([imported, reminded] ! 0) = None
   \<and> reminderMinutesP ([imported, reminded] ! 1) = Some 5
   \<and> take 1 (fst (handleBatchImport exampleUUID 0 [imported, reminded] [meeting])) = [meeting]
   \<and> idT (fst (handleBatchImport exampleUUID 0 [imported, reminded] [meeting]) ! 1) = ''uuid-0000''
   \<and> idT (fst (handleBatchImport exampleUUID 0 [imported, reminded] [meeting]) ! 2) = ''uuid-0001''
   \<and> completed (fst (handleBatchImport exampleUUID 0 [imported, reminded] [meeting]) ! 1) = False
   \<and> reminderMinutes (fst (handleBatchImport exampleUUID 0 [imported, reminded] [meeting]) ! 1) = 15
   \<and> reminderMinutes (fst (handleBatchImport exampleUUID 0 [imported, reminded] [meeting]) ! 2) = 5"
proof -
  have d: "distinct (map exampleUUID [0..<0 + length [imported, reminded]])"
    by code_simp
  have u: "exampleUUID 0 = ''uuid-0000''" "exampleUUID 1 = ''uuid-0001''"
    by code_simp+
  have n: "exampleUUID 0 \<notin> idT ` set [meeting]" "exampleUUID 1 \<notin> idT ` set [meeting]"
    unfolding u by (simp_all add: meeting_def)
  have f: "\<forall>j \<in> {0..<0 + length [imported, reminded]}. exampleUUID j \<notin> idT ` set [meeting]"
  proof
    fix j assume "j \<in> {0..<0 + length [imported, reminded]}"
    then have "j = 0 \<or> j = 1" by auto
    with n show "exampleUUID j \<notin> idT ` set [meeting]" by auto
  qed
  have r: "reminderMinutesP ([imported, reminded] ! 0) = None"
    "reminderMinutesP ([imported, reminded] ! 1) = Some 5"
    by (simp_all add: imported_def reminded_def)
  note t0 = handleBatchImport_admits [OF d f, of 0]
  note t1 = handleBatchImport_admits [OF d f, of 1]
  from t0 t1 r u n d show ?thesis
    by (simp add: numeral_2_eq_2)
qed

text \<open>
  The claim as stated fails: the example call supplies \<open>completed = true\<close> and is admitted
  with \<open>completed = false\<close>.
\<close>

theorem handleBatchImport_admits_counterexample:
  "completedP imported = Some True
   \<and> completed (fst (handleBatchImport exampleUUID 0 [imported] []) ! 0) = False"
  by (simp add: imported_def handleBatchImport_def formatTask_def)

text \<open>
  A supplied reminder of 0 minutes does not survive \<open>t.reminderMinutes || 15\<close> either.
\<close>

lemma formatTask_reminder_zero:
  "reminderMinutes (formatTask uuid (t\<lparr>reminderMinutesP := Some 0\<rparr>)) = 15"
  by (simp add: formatTask_def)

section \<open>Completion\<close>

lemma toggleOne_other: "idT t \<noteq> sid \<Longrightarrow> toggleOne sid d t = t"
  by (simp add: toggleOne_def)

lemma toggleOne_instance:
  assumes "idT t = sid" "d \<noteq> []"
  shows "toggleOne sid (Some d) t =
     t\<lparr>completedInstances :=
         Some (if d \<in> instanceSet t
               then filter (\<lambda>x. x \<noteq> d) (case completedInstances t of None \<Rightarrow> [] | Some c \<Rightarrow> c)
               else (case completedInstances t of None \<Rightarrow> [] | Some c \<Rightarrow> c) @ [d])\<rparr>"
  using assms by (cases "completedInstances t") (simp_all add: toggleOne_def instanceSet_def Let_def)

lemma toggleOne_instance_frame:
  assumes "idT t = sid" "d \<noteq> []"
  shows "(toggleOne sid (Some d) t)\<lparr>completedInstances := None\<rparr> = t\<lparr>completedInstances := None\<rparr>"
    and "completed (toggleOne sid (Some d) t) = completed t"
    and "d \<in> instanceSet (toggleOne sid (Some d) t) \<longleftrightarrow> d \<notin> instanceSet t"
    and "x \<noteq> d \<Longrightarrow> x \<in> instanceSet (toggleOne sid (Some d) t) \<longleftrightarrow> x \<in> instanceSet t"
  unfolding toggleOne_instance [OF assms]
  by (cases "completedInstances t"; simp add: instanceSet_def)+

text \<open>
  Claim C8. Toggling one occurrence of a recurring series, that is, calling
  \<open>handleToggleComplete\<close> with a task whose id decodes to a series id and a (non-empty)
  instant, keeps the length and the order of the task list, leaves every task with another
  id as it is, and in a task of that series changes nothing but \<open>completedInstances\<close>: the
  series' own \<open>completed\<close> flag and every other field stay, the membership of the instant
  in \<open>completedInstances\<close> is flipped, and the membership of every other instant stays.
\<close>

theorem handleToggleComplete_frame:
  assumes "parseVirtualId (idT occ) = (seriesId, Some instant)" and "instant \<noteq> []"
  shows "length (handleToggleComplete occ prev) = length prev
    \<and> (\<forall>i < length prev.
         (idT (prev ! i) \<noteq> seriesId \<longrightarrow> handleToggleComplete occ prev ! i = prev ! i)
         \<and> (idT (prev ! i) = seriesId \<longrightarrow>
              (handleToggleComplete occ prev ! i)\<lparr>completedInstances := None\<rparr>
                = (prev ! i)\<lparr>completedInstances := None\<rparr>
              \<and> completed (handleToggleComplete occ prev ! i) = completed (prev ! i)
              \<and> (instant \<in> instanceSet (handleToggleComplete occ prev ! i)
                   \<longleftrightarrow> instant \<notin> instanceSet (prev ! i))
              \<and> (\<forall>x. x \<noteq> instant \<longrightarrow>
                    (x \<in> instanceSet (handleToggleComplete occ prev ! i)
                      \<longleftrightarrow> x \<in> instanceSet (prev ! i)))))"
proof -
  have h: "handleToggleComplete occ prev = map (toggleOne seriesId (Some instant)) prev"
    by (simp add: handleToggleComplete_def assms(1))
  show ?thesis
    unfolding h
    using toggleOne_instance_frame [OF _ assms(2), of _ seriesId]
    by (simp add: toggleOne_other)
qed

text \<open>
  Toggling the stand-up's occurrence of 3 January in the list of the stand-up and the
  meeting: the meeting and the stand-up's \<open>completed\<close> flag stay, 3 January joins the
  completed instants and 2 January stays among them; in the expansion only the occurrence
  of 3 January changes its completion.
\<close>

theorem handleToggleComplete_frame_witness:
  "parseVirtualId (idT thirdDay) = (''abc'', Some ''2024-01-03T09:00:00.000Z'')
   \<and> ''2024-01-03T09:00:00.000Z'' \<noteq> []
   \<and> idT ([standup, meeting] ! 0) = ''abc''
   \<and> idT ([standup, meeting] ! 1) \<noteq> ''abc''
   \<and> handleToggleComplete thirdDay [standup, meeting] ! 1 = meeting
   \<and> completed (handleToggleComplete thirdDay [standup, meeting] ! 0) = completed standup
   \<and> ''2024-01-03T09:00:00.000Z'' \<notin> instanceSet standup
   \<and> ''2024-01-03T09:00:00.000Z'' \<in> instanceSet (handleToggleComplete thirdDay [standup, meeting] ! 0)
   \<and> ''2024-01-02T09:00:00.000Z'' \<in> instanceSet standup
   \<and> ''2024-01-02T09:00:00.000Z'' \<in> instanceSet (handleToggleComplete thirdDay [standup, meeting] ! 0)
   \<and> map completed (generateRecurringTasks utcHost [standup, meeting] jan1 jan6)
       = [False, True, False, False]
   \<and> map completed
         (generateRecurringTasks utcHost (handleToggleComplete thirdDay [standup, meeting]) jan1 jan6)
       = [False, True, True, False]"
proof -
  have p: "parseVirtualId (idT thirdDay) = (''abc'', Some ''2024-01-03T09:00:00.000Z'')"
    by code_simp
  have ne: "''2024-01-03T09:00:00.000Z'' \<noteq> []"
    by simp
  have ids: "idT ([standup, meeting] ! 0) = ''abc''" "idT ([standup, meeting] ! 1) \<noteq> ''abc''"
    by (simp_all add: standup_def meeting_def)
  have before: "''2024-01-03T09:00:00.000Z'' \<notin> instanceSet standup"
    "''2024-01-02T09:00:00.000Z'' \<in> instanceSet standup"
    by (simp_all add: standup_def instanceSet_def)
  have runs: "map completed (generateRecurringTasks utcHost [standup, meeting] jan1 jan6)
       = [False, True, False, False]"
    "map completed
         (generateRecurringTasks utcHost (handleToggleComplete thirdDay [standup, meeting]) jan1 jan6)
       = [False, True, True, False]"
    by code_simp+
  note f = handleToggleComplete_frame [OF p ne, of "[standup, meeting]"]
  from f have f0: "completed (handleToggleComplete thirdDay [standup, meeting] ! 0) = completed standup"
    "''2024-01-03T09:00:00.000Z'' \<in> instanceSet (handleToggleComplete thirdDay [standup, meeting] ! 0)"
    "''2024-01-02T09:00:00.000Z'' \<in> instanceSet (handleToggleComplete thirdDay [standup, meeting] ! 0)"
    using ids(1) before by auto
  from f have f1: "handleToggleComplete thirdDay [standup, meeting] ! 1 = meeting"
    using ids(2) by auto
  from p ne ids before runs f0 f1 show ?thesis
    by blast
qed

lemma toggleOne_twice: "sameTask (toggleOne sid d (toggleOne sid d t)) t"
proof (cases "idT t = sid")
  case False
  then show ?thesis by (simp add: toggleOne_other sameTask_def)
next
  case True
  show ?thesis
  proof (cases "case d of None \<Rightarrow> None | Some x \<Rightarrow> if x = [] then None else Some x")
    case None
    with True show ?thesis
      by (simp add: toggleOne_def sameTask_def instanceSet_def)
  next
    case (Some x)
    then have d: "d = Some x" "x \<noteq> []"
      by (auto split: option.splits if_splits)
    have id1: "idT (toggleOne sid (Some x) t) = sid"
      using True d(2) by (simp add: toggleOne_instance)
    have "(toggleOne sid (Some x) (toggleOne sid (Some x) t))\<lparr>completedInstances := None\<rparr>
            = t\<lparr>completedInstances := None\<rparr>"
      using toggleOne_instance_frame(1) [OF id1 d(2)] toggleOne_instance_frame(1) [OF True d(2)]
      by simp
    moreover have "instanceSet (toggleOne sid (Some x) (toggleOne sid (Some x) t)) = instanceSet t"
    proof (intro set_eqI)
      fix y
      show "y \<in> instanceSet (toggleOne sid (Some x) (toggleOne sid (Some x) t)) \<longleftrightarrow> y \<in> instanceSet t"
      proof (cases "y = x")
        case True
        then show ?thesis
          using toggleOne_instance_frame(3) [OF id1 d(2)] toggleOne_instance_frame(3) [OF \<open>idT t = sid\<close> d(2)]
          by simp
      next
        case False
        then show ?thesis
          using toggleOne_instance_frame(4) [OF id1 d(2) False]
            toggleOne_instance_frame(4) [OF \<open>idT t = sid\<close> d(2) False]
          by simp
      qed
    qed
    ultimately show ?thesis
      by (simp add: sameTask_def d(1))
  qed
qed

text \<open>
  Claim C10. Toggling twice with the same occurrence gives back the task list, with
  \<open>completedInstances\<close> compared as sets: the two lists have the same length and at every
  position the same task, field by field (every \<open>completed\<close> flag included), with the same
  set of completed instants.
\<close>

theorem handleToggleComplete_involution:
  "sameTasks (handleToggleComplete task (handleToggleComplete task prev)) prev"
proof -
  obtain sid d where p: "parseVirtualId (idT task) = (sid, d)"
    by (cases "parseVirtualId (idT task)")
  have "list_all2 sameTask (map (\<lambda>t. toggleOne sid d (toggleOne sid d t)) prev) prev"
    by (simp add: list_all2_map1 list_all2_same toggleOne_twice)
  then show ?thesis
    by (simp add: sameTasks_def handleToggleComplete_def p comp_def)
qed


text \<open>
  The arrays themselves may differ in order: with 2 and 3 January completed, in this
  order, toggling 2 January twice leaves 3 January before 2 January.
\<close>

lemma handleToggleComplete_twice_order:
  "completedInstances (handleToggleComplete (thirdDay\<lparr>idT := ''abc::2024-01-02T09:00:00.000Z''\<rparr>)
      (handleToggleComplete (thirdDay\<lparr>idT := ''abc::2024-01-02T09:00:00.000Z''\<rparr>)
         (handleToggleComplete thirdDay [standup])) ! 0)
     = Some [''2024-01-03T09:00:00.000Z'', ''2024-01-02T09:00:00.000Z'']
   \<and> completedInstances (handleToggleComplete thirdDay [standup] ! 0)
     = Some [''2024-01-02T09:00:00.000Z'', ''2024-01-03T09:00:00.000Z'']"
  by code_simp

section \<open>Conflict detection\<close>

text \<open>
  The series id \<open>parseVirtualId\<close> returns, and what it is for the id of an emitted
  occurrence: the id of its series, without a final colon if it has one, as long as the
  series id does not hold the separator and the ISO string makes none behind a colon. No
  ISO string of the reference host does.
\<close>

lemma fst_parseVirtualId: "fst (parseVirtualId v) = seriesIdOf v"
  by (cases "splitFirst v")
     (auto simp: parseVirtualId_splitFirst seriesIdOf_def severalSeps_def decodeSpec_def)

lemma checkConflict_seriesIdOf:
  "checkConflict H pool target \<longleftrightarrow>
      (\<exists>t \<in> set pool.
         seriesIdOf (idT t) \<noteq> seriesIdOf (idT target)
         \<and> \<not> completed target \<and> \<not> completed t
         \<and> parseDate H (start target) < parseDate H (endT t)
         \<and> parseDate H (endT target) > parseDate H (start t))"
  unfolding checkConflict_def Let_def list_ex_iff fst_parseVirtualId
  by (rule bex_cong [OF refl]) auto

lemma containsSep_Cons: "containsSep xs \<Longrightarrow> containsSep (c # xs)"
  by (cases xs) (auto simp: containsSep_def split: option.splits)

lemma containsSep_snoc_colon:
  "\<not> containsSep (xs @ [CHR '':'']) \<Longrightarrow> \<not> containsSep xs \<and> \<not> endsWithColon xs"
proof (induction xs rule: splitFirst.induct)
  case (1 c d cs)
  then show ?case
    by (auto simp: containsSep_def endsWithColon_def split: option.splits if_splits)
qed (auto simp: containsSep_def endsWithColon_def)

lemma seriesIdOf_virtualId:
  assumes "\<not> containsSep sid" "\<not> containsSep (CHR '':'' # startIso)"
  shows "seriesIdOf (virtualId sid startIso) = (if endsWithColon sid then butlast sid else sid)"
proof (cases "endsWithColon sid")
  case False
  have "\<not> containsSep startIso"
    using assms(2) containsSep_Cons by blast
  with assms(1) False have "parseVirtualId (virtualId sid startIso) = (sid, Some startIso)"
    by (rule parseVirtualId_virtualId)
  with False show ?thesis
    by (simp add: fst_parseVirtualId [symmetric])
next
  case True
  then have sid: "sid = butlast sid @ [CHR '':'']"
    by (simp add: endsWithColon_def) (metis append_butlast_last_id)
  have b: "\<not> containsSep (butlast sid)" "\<not> endsWithColon (butlast sid)"
    using containsSep_snoc_colon [of "butlast sid"] assms(1) sid by simp_all
  have v: "virtualId sid startIso = virtualId (butlast sid) (CHR '':'' # startIso)"
    by (subst sid) (simp add: virtualId_def)
  have "parseVirtualId (virtualId (butlast sid) (CHR '':'' # startIso))
          = (butlast sid, Some (CHR '':'' # startIso))"
    using b assms(2) by (rule parseVirtualId_virtualId)
  with True show ?thesis
    by (simp add: fst_parseVirtualId [symmetric] v)
qed

lemma expandTask_cases:
  assumes "occ \<in> set (expandTask H ws we task)"
  shows "(recurrence task = None \<or> (\<exists>r. recurrence task = Some r \<and> frequency r = NONE))
           \<and> occ = task
         \<or> (\<exists>r. recurrence task = Some r \<and> frequency r \<noteq> NONE)
           \<and> (\<exists>s e. occ = instanceOf H task s e)"
  using assms
  by (auto simp: expandTask_def whileLoop_walk split: option.splits if_splits)

lemma same_series_never_conflict:
  assumes "\<not> containsSep (idT series)"
    and "\<And>s. \<not> containsSep (CHR '':'' # toISOString H s)"
    and "a \<in> set (generateRecurringTasks H [series] ws we)"
    and "b \<in> set (generateRecurringTasks H [series] ws' we')"
  shows "\<not> checkConflict H [b] a"
proof -
  from assms(3,4) have a: "a \<in> set (expandTask H ws we series)"
    and b: "b \<in> set (expandTask H ws' we' series)"
    by simp_all
  have "seriesIdOf (idT a) = seriesIdOf (idT b)"
    using expandTask_cases [OF a] expandTask_cases [OF b]
  proof (elim disjE conjE exE)
    fix s e s' e'
    assume "a = instanceOf H series s e" "b = instanceOf H series s' e'"
    then have "idT a = virtualId (idT series) (toISOString H s)"
      "idT b = virtualId (idT series) (toISOString H s')"
      by (simp_all add: instanceOf_def Let_def)
    then show ?thesis
      using seriesIdOf_virtualId [OF assms(1) assms(2)] by simp
  qed simp_all
  then show ?thesis
    by (simp add: checkConflict_seriesIdOf)
qed


lemma isoString_first: "\<exists>c cs. isoString t = c # cs \<and> c \<noteq> CHR '':''"
proof -
  obtain y m d where c: "civilFromDays (t div msPerDay) = (y, m, d)"
    by (cases "civilFromDays (t div msPerDay)")
  define year where "year = (if 0 \<le> y \<and> y \<le> 9999 then pad 4 y
            else (if y < 0 then ''-'' else ''+'') @ pad 6 (abs y))"
  obtain more where iso: "isoString t = year @ CHR ''-'' # more"
    by (simp add: isoString_def c Let_def year_def del: pad.simps)
  have y: "CHR '':'' \<notin> set (year @ [CHR ''-''])"
    by (simp add: year_def pad_no_colon del: pad.simps)
  obtain c cs where cs: "year @ [CHR ''-''] = c # cs"
    by (cases "year @ [CHR ''-'']") simp_all
  with y have "c \<noteq> CHR '':''" by auto
  moreover have "isoString t = c # cs @ more"
    using iso cs by (metis append_Cons append_Nil append_assoc)
  ultimately show ?thesis by blast
qed

lemma utcHost_colon_no_sep: "\<not> containsSep (CHR '':'' # toISOString utcHost s)"
proof -
  obtain c cs where i: "isoString s = c # cs" "c \<noteq> CHR '':''"
    using isoString_first by blast
  have "containsSep (CHR '':'' # c # cs) \<longleftrightarrow> containsSep (c # cs)"
    using i(2) by (rule containsSep_colon)
  with isoString_no_sep [of s] i(1) show ?thesis
    by (simp add: utcHost_def)
qed

text \<open>
  Claim C2, as amended. \<open>checkConflict\<close> holds of a target and a pool exactly when some
  member of the pool stands for another series than the target (the part of the id before
  the separator when the id holds it once, the whole id otherwise), neither of the two is
  completed, and the two spans overlap strictly: the target starts before the member ends
  and ends after the member starts. So a member whose span only touches the target's at one
  boundary instant never conflicts with it; and two occurrences the expansion emits for one
  series never conflict, whatever their spans, for every series whose id does not hold the
  separator (on a host whose ISO strings make no separator, also behind a colon).
\<close>

theorem checkConflict_series:
  "(checkConflict H pool target \<longleftrightarrow>
      (\<exists>t \<in> set pool.
         seriesIdOf (idT t) \<noteq> seriesIdOf (idT target)
         \<and> \<not> completed target \<and> \<not> completed t
         \<and> parseDate H (start target) < parseDate H (endT t)
         \<and> parseDate H (endT target) > parseDate H (start t)))
   \<and> (parseDate H (endT target) = parseDate H (start t)
        \<or> parseDate H (start target) = parseDate H (endT t)
        \<longrightarrow> \<not> checkConflict H [t] target)
   \<and> (\<not> containsSep (idT series)
        \<and> (\<forall>s. \<not> containsSep (CHR '':'' # toISOString H s))
        \<and> a \<in> set (generateRecurringTasks H [series] ws we)
        \<and> b \<in> set (generateRecurringTasks H [series] ws' we')
        \<longrightarrow> \<not> checkConflict H [b] a)"
proof (intro conjI impI)
  show "checkConflict H pool target \<longleftrightarrow>
      (\<exists>t \<in> set pool.
         seriesIdOf (idT t) \<noteq> seriesIdOf (idT target)
         \<and> \<not> completed target \<and> \<not> completed t
         \<and> parseDate H (start target) < parseDate H (endT t)
         \<and> parseDate H (endT target) > parseDate H (start t))"
    by (rule checkConflict_seriesIdOf)
next
  assume "parseDate H (endT target) = parseDate H (start t)
        \<or> parseDate H (start target) = parseDate H (endT t)"
  then show "\<not> checkConflict H [t] target"
    unfolding checkConflict_seriesIdOf by (elim disjE) simp_all
next
  assume h: "\<not> containsSep (idT series)
        \<and> (\<forall>s. \<not> containsSep (CHR '':'' # toISOString H s))
        \<and> a \<in> set (generateRecurringTasks H [series] ws we)
        \<and> b \<in> set (generateRecurringTasks H [series] ws' we')"
  then show "\<not> checkConflict H [b] a"
    using same_series_never_conflict [of series H a ws we b ws' we'] by blast
qed

text \<open>
  On the reference host. The relay's two occurrences overlap and stand for the same
  series: they do not conflict. The meeting (09:30 to 10:30) stands for another series and
  overlaps the relay's first occurrence: that occurrence conflicts in a pool that holds the
  meeting. The review (10:00 to 11:00) does not conflict with the stand-up's canonical span
  (09:00 to 10:00), which ends when the review starts.
\<close>

theorem checkConflict_series_witness:
  "\<not> containsSep (idT relay)
   \<and> generateRecurringTasks utcHost [relay] jan1 jan6 = [relayDay1, relayDay2]
   \<and> idT relayDay1 = ''relay::2024-01-01T09:00:00.000Z''
   \<and> idT relayDay2 = ''relay::2024-01-02T09:00:00.000Z''
   \<and> seriesIdOf (idT relayDay1) = ''relay''
   \<and> seriesIdOf (idT relayDay2) = ''relay''
   \<and> seriesIdOf (idT meeting) = ''m1''
   \<and> \<not> completed relayDay1 \<and> \<not> completed relayDay2 \<and> \<not> completed meeting
   \<and> parseDate utcHost (start relayDay1) < parseDate utcHost (endT relayDay2)
   \<and> parseDate utcHost (endT relayDay1) > parseDate utcHost (start relayDay2)
   \<and> \<not> checkConflict utcHost [relayDay2] relayDay1
   \<and> parseDate utcHost (start relayDay1) < parseDate utcHost (endT meeting)
   \<and> parseDate utcHost (endT relayDay1) > parseDate utcHost (start meeting)
   \<and> checkConflict utcHost [relayDay2, meeting] relayDay1
   \<and> parseDate utcHost (endT standup) = parseDate utcHost (start review)
   \<and> \<not> checkConflict utcHost [standup] review"
proof -
  have sid: "\<not> containsSep (idT relay)"
    by code_simp
  have run: "generateRecurringTasks utcHost [relay] jan1 jan6 = [relayDay1, relayDay2]"
    by code_simp
  have ids: "idT relayDay1 = ''relay::2024-01-01T09:00:00.000Z''"
    "idT relayDay2 = ''relay::2024-01-02T09:00:00.000Z''"
    by code_simp+
  have dec: "seriesIdOf (idT relayDay1) = ''relay''" "seriesIdOf (idT relayDay2) = ''relay''"
    "seriesIdOf (idT meeting) = ''m1''"
    by code_simp+
  have open': "\<not> completed relayDay1" "\<not> completed relayDay2" "\<not> completed meeting"
    by code_simp+
  have self: "parseDate utcHost (start relayDay1) < parseDate utcHost (endT relayDay2)"
    "parseDate utcHost (endT relayDay1) > parseDate utcHost (start relayDay2)"
    by code_simp+
  have other: "parseDate utcHost (start relayDay1) < parseDate utcHost (endT meeting)"
    "parseDate utcHost (endT relayDay1) > parseDate utcHost (start meeting)"
    by code_simp+
  have touch: "parseDate utcHost (endT standup) = parseDate utcHost (start review)"
    by code_simp
  have iso: "\<forall>s. \<not> containsSep (CHR '':'' # toISOString utcHost s)"
    by (simp add: utcHost_colon_no_sep)
  have mem: "relayDay1 \<in> set (generateRecurringTasks utcHost [relay] jan1 jan6)"
    "relayDay2 \<in> set (generateRecurringTasks utcHost [relay] jan1 jan6)"
    unfolding run by simp_all
  have c1: "\<not> checkConflict utcHost [relayDay2] relayDay1"
    using checkConflict_series [of utcHost _ _ _ relay relayDay1 jan1 jan6 relayDay2 jan1 jan6]
      sid iso mem by blast
  have "\<exists>t \<in> set [relayDay2, meeting].
         seriesIdOf (idT t) \<noteq> seriesIdOf (idT relayDay1)
         \<and> \<not> completed relayDay1 \<and> \<not> completed t
         \<and> parseDate utcHost (start relayDay1) < parseDate utcHost (endT t)
         \<and> parseDate utcHost (endT relayDay1) > parseDate utcHost (start t)"
    using dec open' other by simp
  then have c2: "checkConflict utcHost [relayDay2, meeting] relayDay1"
    using checkConflict_series [of utcHost "[relayDay2, meeting]" relayDay1] by blast
  have c3: "\<not> checkConflict utcHost [standup] review"
    using checkConflict_series [of utcHost _ review standup] touch [symmetric] by blast
  from sid run ids dec open' self other touch c1 c2 c3 show ?thesis
    by blast
qed

text \<open>
  The claim as stated fails: the two occurrences of the series \<open>x::y\<close> overlap, neither is
  completed, both ids hold \<open>x\<close> before their first separator, and they conflict.
\<close>

theorem checkConflict_series_counterexample:
  "generateRecurringTasks utcHost [tangled] jan1 jan6 = [tangledDay1, tangledDay2]
   \<and> idT tangledDay1 = ''x::y::2024-01-01T09:00:00.000Z''
   \<and> idT tangledDay2 = ''x::y::2024-01-02T09:00:00.000Z''
   \<and> fst (decodeSpec (idT tangledDay1)) = ''x''
   \<and> fst (decodeSpec (idT tangledDay2)) = ''x''
   \<and> \<not> completed tangledDay1 \<and> \<not> completed tangledDay2
   \<and> checkConflict utcHost [tangledDay2] tangledDay1"
  by code_simp

section \<open>Reminders\<close>

text \<open>
  What holds of every tick: an event is emitted only for an occurrence that is not
  completed, whose id is not in the set the tick reads, and whose reminder window holds the
  clock; the id of every event is in the set afterwards, and an id in the set is never
  emitted again. So a run of ticks emits at most one event per id as long as no tick
  expands the task list into two occurrences with one id.
\<close>

lemma checkReminders_only_if:
  assumes "e \<in> set (fst (checkReminders H tasks notifiedTaskIds now now2 now3))"
  shows "\<not> completed e \<and> idT e \<notin> notifiedTaskIds
    \<and> now \<ge> parseDate H (start e) - reminderMinutes e * 60 * 1000
    \<and> now < parseDate H (start e) + 60000
    \<and> idT e \<in> snd (checkReminders H tasks notifiedTaskIds now now2 now3)"
  using assms
  by (auto simp: checkReminders_def fires_def Let_def split: if_splits)

lemma checkReminders_silent:
  assumes "i \<in> notifiedTaskIds"
  shows "i \<notin> idT ` set (fst (checkReminders H tasks notifiedTaskIds now now2 now3))"
    and "i \<in> snd (checkReminders H tasks notifiedTaskIds now now2 now3)"
  using assms by (auto simp: checkReminders_def fires_def Let_def)

lemma runTicks_ids:
  "idT ` set (runTicks H notifiedTaskIds ks) \<inter> notifiedTaskIds = {}"
proof (induction ks arbitrary: notifiedTaskIds)
  case Nil
  show ?case by simp
next
  case (Cons k ks)
  obtain events N where c: "checkReminders H (tasksAt k) notifiedTaskIds (nowAt k) (now2At k) (now3At k) = (events, N)"
    by (cases "checkReminders H (tasksAt k) notifiedTaskIds (nowAt k) (now2At k) (now3At k)")
  have N: "N = notifiedTaskIds \<union> idT ` set events"
    using c by (auto simp: checkReminders_def Let_def)
  have e: "idT ` set events \<inter> notifiedTaskIds = {}"
    using c by (auto simp: checkReminders_def fires_def Let_def)
  from Cons.IH [of N] have "idT ` set (runTicks H N ks) \<inter> notifiedTaskIds = {}"
    unfolding N by blast
  with e show ?case
    by (simp add: c image_Un Int_Un_distrib2)
qed

lemma runTicks_at_most_once:
  assumes "\<forall>k \<in> set ks. distinct (map idT (tasksForReminders H (tasksAt k) (now2At k) (now3At k)))"
  shows "distinct (map idT (runTicks H notifiedTaskIds ks))"
  using assms
proof (induction ks arbitrary: notifiedTaskIds)
  case Nil
  show ?case by simp
next
  case (Cons k ks)
  obtain events N where c: "checkReminders H (tasksAt k) notifiedTaskIds (nowAt k) (now2At k) (now3At k) = (events, N)"
    by (cases "checkReminders H (tasksAt k) notifiedTaskIds (nowAt k) (now2At k) (now3At k)")
  have N: "N = notifiedTaskIds \<union> idT ` set events"
    using c by (auto simp: checkReminders_def Let_def)
  have ev: "events = filter (fires H notifiedTaskIds (nowAt k)) (tasksForReminders H (tasksAt k) (now2At k) (now3At k))"
    using c by (auto simp: checkReminders_def Let_def)
  have d1: "distinct (map idT events)"
    unfolding ev using Cons.prems by (simp add: distinct_map_filter)
  have d2: "distinct (map idT (runTicks H N ks))"
    using Cons.IH [of N] Cons.prems by simp
  have "idT ` set (runTicks H N ks) \<inter> N = {}"
    by (rule runTicks_ids)
  then have d3: "idT ` set events \<inter> idT ` set (runTicks H N ks) = {}"
    unfolding N by blast
  show ?case
    using d1 d2 d3 by (simp add: c)
qed

text \<open>
  No tick does, when the series ids of the task list are pairwise distinct, none holds the
  separator or ends with a colon, every recurring series' step moves its start forward,
  and the host renders different instants differently, without the separator.
\<close>

lemma walkStarts_increasing:
  assumes "\<And>x. step x > x"
  shows "sorted_wrt (<) (walkStarts step stop n s) \<and> (\<forall>x \<in> set (walkStarts step stop n s). s \<le> x)"
proof (induction n arbitrary: s)
  case 0
  show ?case by simp
next
  case (Suc n)
  have s: "s < step s" by (rule assms)
  from Suc [of "step s"] have srt: "sorted_wrt (<) (walkStarts step stop n (step s))"
    and lb: "\<forall>x \<in> set (walkStarts step stop n (step s)). step s \<le> x"
    by simp_all
  from lb s have "\<forall>x \<in> set (walkStarts step stop n (step s)). s < x"
    by (auto intro: less_le_trans)
  with srt show ?case by (auto intro: less_imp_le)
qed

lemma walkStarts_distinct:
  assumes "\<And>x. step x > x"
  shows "distinct (walkStarts step stop n s)"
  using walkStarts_increasing [OF assms, of stop n s]
  by (simp add: strict_sorted_iff)

lemma whileLoop_distinct_ids:
  assumes "\<And>x. advance H f iv x > x" "inj (toISOString H)"
  shows "distinct (map idT (whileLoop H task f iv ud dur rs re cs it))"
proof -
  have inj: "inj (\<lambda>s. idT (instanceOf H task s (s + dur)))"
    using assms(2) by (auto simp: inj_def instanceOf_def virtualId_def Let_def)
  show ?thesis
    unfolding whileLoop_walk map_map comp_def
    by (intro iffD2 [OF distinct_map] conjI distinct_filter walkStarts_distinct assms(1)
        inj_on_subset [OF inj]) simp_all
qed

lemma expandTask_distinct_ids:
  assumes "\<And>r x. recurrence task = Some r \<Longrightarrow> frequency r \<noteq> NONE \<Longrightarrow>
             advance H (frequency r) (intervalOf r) x > x"
    and "inj (toISOString H)"
  shows "distinct (map idT (expandTask H ws we task))"
proof (cases "recurrence task")
  case None
  then show ?thesis by (simp add: expandTask_def)
next
  case (Some r)
  show ?thesis
  proof (cases "frequency r = NONE")
    case True
    with Some show ?thesis by (simp add: expandTask_def)
  next
    case False
    have "distinct (map idT (whileLoop H task (frequency r) (intervalOf r) (untilDateOf H r)
            (taskDurationOf H task) ws we (parseDate H (start task)) 0))"
      using assms(1) [OF Some False] assms(2) by (rule whileLoop_distinct_ids)
    with Some False show ?thesis by (simp add: expandTask_def)
  qed
qed

lemma generateRecurringTasks_distinct_ids:
  assumes "distinct (map idT tasks)"
    and "\<forall>t \<in> set tasks. \<not> containsSep (idT t) \<and> \<not> endsWithColon (idT t)"
    and "\<And>s. \<not> containsSep (toISOString H s)"
    and "inj (toISOString H)"
    and "\<And>t r x. t \<in> set tasks \<Longrightarrow> recurrence t = Some r \<Longrightarrow> frequency r \<noteq> NONE \<Longrightarrow>
           advance H (frequency r) (intervalOf r) x > x"
  shows "distinct (map idT (generateRecurringTasks H tasks ws we))"
  using assms(1,2,5)
proof (induction tasks)
  case Nil
  show ?case by simp
next
  case (Cons t ts)
  have d1: "distinct (map idT (expandTask H ws we t))"
    using Cons.prems(3) [of t] assms(4) by (intro expandTask_distinct_ids) simp_all
  have d2: "distinct (map idT (generateRecurringTasks H ts ws we))"
    using Cons.prems by (intro Cons.IH) auto
  have dec: "fst (parseVirtualId (idT b)) \<in> idT ` set ts"
    if "b \<in> set (generateRecurringTasks H ts ws we)" for b
    using that Cons.prems(2)
  proof (induction ts)
    case Nil
    then show ?case by simp
  next
    case (Cons u us)
    from Cons.prems(1) consider "b \<in> set (expandTask H ws we u)"
      | "b \<in> set (generateRecurringTasks H us ws we)"
      by auto
    then show ?case
    proof cases
      case 1
      have "fst (parseVirtualId (idT b)) = idT u"
        using Cons.prems(2) assms(3) 1 by (intro occurrence_decodes [of u H b ws we]) simp_all
      then show ?thesis by simp
    next
      case 2
      then have "fst (parseVirtualId (idT b)) \<in> idT ` set us"
        using Cons.prems(2) by (intro Cons.IH) simp_all
      then show ?thesis by simp
    qed
  qed
  have d3: "idT a \<noteq> idT b"
    if a: "a \<in> set (expandTask H ws we t)" and b: "b \<in> set (generateRecurringTasks H ts ws we)"
    for a b
  proof
    assume e: "idT a = idT b"
    have "fst (parseVirtualId (idT a)) = idT t"
      using Cons.prems(2) assms(3) a by (intro occurrence_decodes [of t H a ws we]) simp_all
    with e dec [OF b] have "idT t \<in> idT ` set ts" by simp
    with Cons.prems(1) show False by simp
  qed
  from d1 d2 d3 show ?case
    by (auto simp: distinct_map inj_on_def) 
qed

lemma runTicks_at_most_once_regular:
  assumes "\<And>s. \<not> containsSep (toISOString H s)" "inj (toISOString H)"
    and "\<forall>k \<in> set ks. distinct (map idT (tasksAt k))
           \<and> (\<forall>t \<in> set (tasksAt k). \<not> containsSep (idT t) \<and> \<not> endsWithColon (idT t))"
    and "\<And>k t r x. k \<in> set ks \<Longrightarrow> t \<in> set (tasksAt k) \<Longrightarrow> recurrence t = Some r \<Longrightarrow>
           frequency r \<noteq> NONE \<Longrightarrow> advance H (frequency r) (intervalOf r) x > x"
  shows "distinct (map idT (runTicks H notifiedTaskIds ks))"
proof (rule runTicks_at_most_once, rule ballI)
  fix k assume k: "k \<in> set ks"
  show "distinct (map idT (tasksForReminders H (tasksAt k) (now2At k) (now3At k)))"
    unfolding tasksForReminders_def Let_def
    using assms(3) k assms(4) [OF k]
    by (intro generateRecurringTasks_distinct_ids assms(1,2)) auto
qed

text \<open>
  Claim C9 fails on the code. A tick reads the set of notified ids as it was when the tick
  began, so an id that occurs twice in the tick's expansion fires twice. The series
  \<open>stuck\<close> (interval 0) expands into a thousand occurrences with one id: at 08:50 of 1
  January, with nothing notified, one tick emits a thousand reminder events for the id
  \<open>s1::2024-01-01T09:00:00.000Z\<close>.
\<close>

theorem checkReminders_repeats:
  "fst (checkReminders utcHost [stuck] {} 1704099000000 1704099000000 1704099000000) =
     replicate 1000 (instanceOf utcHost stuck 1704099600000 1704103200000)
   \<and> idT (instanceOf utcHost stuck 1704099600000 1704103200000) = ''s1::2024-01-01T09:00:00.000Z''
   \<and> length (filter (\<lambda>e. idT e = ''s1::2024-01-01T09:00:00.000Z'')
        (fst (checkReminders utcHost [stuck] {} 1704099000000 1704099000000 1704099000000))) = 1000"
proof -
  let ?occ = "instanceOf utcHost stuck 1704099600000 1704103200000"
  have w: "setHours utcHost 1704099000000 0 0 0 0 = 1704067200000"
    "setHours utcHost 1704099000000 23 59 59 999 = 1704153599999"
    by code_simp+
  have t: "tasksForReminders utcHost [stuck] 1704099000000 1704099000000 = replicate 1000 ?occ"
    unfolding tasksForReminders_def Let_def w
    by (rule stuck_expansion) simp_all
  have f: "fires utcHost {} 1704099000000 ?occ"
    by code_simp
  have i: "idT ?occ = ''s1::2024-01-01T09:00:00.000Z''"
    by code_simp
  have ev: "fst (checkReminders utcHost [stuck] {} 1704099000000 1704099000000 1704099000000)
      = replicate 1000 ?occ"
    using f by (simp add: checkReminders_def t)
  show ?thesis
    unfolding ev using i by simp
qed

end
